theory Spec2Isabelle
  imports Main
begin

section \<open>Folder-to-Git migration engine (package gitconverter)\<close>

text \<open>
  A shallow embedding of \<^verbatim>\<open>pkg/gitconverter/converter.go\<close>. Go strings are byte
  sequences and are modelled as \<^typ>\<open>string\<close>; \<^verbatim>\<open>int64\<close> Unix times are only compared
  and stored, never added, and are modelled as \<^typ>\<open>int\<close>.
\<close>

subsection \<open>The functions of package strings that the converter calls\<close>

text \<open>
  \<^verbatim>\<open>HasPrefix\<close>, \<^verbatim>\<open>HasSuffix\<close> and \<^verbatim>\<open>TrimPrefix\<close> follow the library's own
  definitions by slicing.
\<close>

definition HasPrefix :: "string \<Rightarrow> string \<Rightarrow> bool" where
  "HasPrefix s pre = (length pre \<le> length s \<and> take (length pre) s = pre)"

definition HasSuffix :: "string \<Rightarrow> string \<Rightarrow> bool" where
  "HasSuffix s suf = (length suf \<le> length s \<and> drop (length s - length suf) s = suf)"

definition TrimPrefix :: "string \<Rightarrow> string \<Rightarrow> string" where
  "TrimPrefix s pre = (if HasPrefix s pre then drop (length pre) s else s)"

fun Contains :: "string \<Rightarrow> string \<Rightarrow> bool" where
  "Contains [] sub = (sub = [])"
| "Contains (c # cs) sub = (HasPrefix (c # cs) sub \<or> Contains cs sub)"

text \<open>
  \<^verbatim>\<open>Split(s, sep)\<close> for a separator of one byte, which is how the converter calls it
  (\<^verbatim>\<open>":"\<close> and \<^verbatim>\<open>"\n"\<close>): the pieces between the separators, at least one piece.
\<close>

fun Split :: "string \<Rightarrow> char \<Rightarrow> string list" where
  "Split [] sep = [[]]"
| "Split (c # cs) sep =
     (if c = sep then [] # Split cs sep
      else (case Split cs sep of [] \<Rightarrow> [[c]] | p # ps \<Rightarrow> (c # p) # ps))"

text \<open>
  \<^verbatim>\<open>TrimSpace\<close> removes leading and trailing white space as Unicode defines it. On the
  UTF-8 bytes of a Go string the white-space runes are the six ASCII ones and the
  encodings of U+0085, U+00A0, U+1680, U+2000..U+200A, U+2028, U+2029, U+202F, U+205F and
  U+3000. Decoding a rune looks at that rune's bytes only, so trimming removes these byte
  sequences from the front, and then from the back, as long as one is there.
\<close>

definition spaceRunes :: "string list" where
  "spaceRunes =
    [[CHR 0x09], [CHR 0x0A], [CHR 0x0B], [CHR 0x0C], [CHR 0x0D], [CHR 0x20],
     [CHR 0xC2, CHR 0x85], [CHR 0xC2, CHR 0xA0], [CHR 0xE1, CHR 0x9A, CHR 0x80],
     [CHR 0xE2, CHR 0x80, CHR 0x80], [CHR 0xE2, CHR 0x80, CHR 0x81],
     [CHR 0xE2, CHR 0x80, CHR 0x82], [CHR 0xE2, CHR 0x80, CHR 0x83],
     [CHR 0xE2, CHR 0x80, CHR 0x84], [CHR 0xE2, CHR 0x80, CHR 0x85],
     [CHR 0xE2, CHR 0x80, CHR 0x86], [CHR 0xE2, CHR 0x80, CHR 0x87],
     [CHR 0xE2, CHR 0x80, CHR 0x88], [CHR 0xE2, CHR 0x80, CHR 0x89],
     [CHR 0xE2, CHR 0x80, CHR 0x8A], [CHR 0xE2, CHR 0x80, CHR 0xA8],
     [CHR 0xE2, CHR 0x80, CHR 0xA9], [CHR 0xE2, CHR 0x80, CHR 0xAF],
     [CHR 0xE2, CHR 0x81, CHR 0x9F], [CHR 0xE3, CHR 0x80, CHR 0x80]]"

fun spaceWidth :: "string list \<Rightarrow> string \<Rightarrow> nat" where
  "spaceWidth [] s = 0"
| "spaceWidth (r # rs) s = (if r \<noteq> [] \<and> HasPrefix s r then length r else spaceWidth rs s)"

fun trimLeftRunes :: "string list \<Rightarrow> nat \<Rightarrow> string \<Rightarrow> string" where
  "trimLeftRunes rs 0 s = s"
| "trimLeftRunes rs (Suc n) s =
     (if spaceWidth rs s = 0 then s else trimLeftRunes rs n (drop (spaceWidth rs s) s))"

definition TrimSpace :: "string \<Rightarrow> string" where
  "TrimSpace s =
     (let l = trimLeftRunes spaceRunes (length s) s
      in rev (trimLeftRunes (map rev spaceRunes) (length l) (rev l)))"

text \<open>
  \<^verbatim>\<open>ReplaceAll(s, old, new)\<close> for a non-empty \<^verbatim>\<open>old\<close> (the converter passes the
  placeholders \<^verbatim>\<open>{version}\<close>, \<^verbatim>\<open>{folder}\<close>, ...): occurrences are replaced from left
  to right without overlap. The first argument bounds the number of steps by the
  length of the input.
\<close>

fun replaceFrom :: "nat \<Rightarrow> string \<Rightarrow> string \<Rightarrow> string \<Rightarrow> string" where
  "replaceFrom 0 s old new = s"
| "replaceFrom (Suc n) [] old new = []"
| "replaceFrom (Suc n) (c # cs) old new =
     (if old \<noteq> [] \<and> HasPrefix (c # cs) old
      then new @ replaceFrom n (drop (length old) (c # cs)) old new
      else c # replaceFrom n cs old new)"

definition ReplaceAll :: "string \<Rightarrow> string \<Rightarrow> string \<Rightarrow> string" where
  "ReplaceAll s old new = replaceFrom (length s) s old new"

text \<open>\<^verbatim>\<open>fmt.Sprintf("%d", n)\<close> for a count \<open>n \<ge> 0\<close>.\<close>

fun digits :: "nat \<Rightarrow> nat \<Rightarrow> string" where
  "digits 0 n = []"
| "digits (Suc k) n =
     (if n < 10 then [char_of (48 + n)] else digits k (n div 10) @ [char_of (48 + n mod 10)])"

definition Sprintf_d :: "nat \<Rightarrow> string" where
  "Sprintf_d n = digits (Suc n) n"

subsection \<open>Data model\<close>

text \<open>
  A file-system path is modelled by the list of its components, as \<^verbatim>\<open>filepath.Clean\<close>
  leaves them for an absolute path; \<^verbatim>\<open>filepath.Base\<close> is then the last component (and
  the separator for the root) and \<^verbatim>\<open>filepath.Join\<close> appends components.
\<close>

type_synonym path = "string list"

definition Base :: "path \<Rightarrow> string" where
  "Base p = (if p = [] then ''/'' else last p)"

record FolderInfo =
  Path :: path
  Version :: string
  CreationTime :: int

record Config =
  SourceDir :: path
  TargetDir :: path
  Pattern :: string
  ExtractPattern :: string
  DryRun :: bool
  Author :: string
  Email :: string
  Verbose :: bool
  Append :: bool
  AuthorsFile :: string
  MessageTemplate :: string

subsection \<open>Commit messages and the version they carry\<close>

text \<open>
  The default message of \<^verbatim>\<open>MigrateToGit\<close>,
  \<^verbatim>\<open>fmt.Sprintf("Version %s: %s (created: %s)", ...)\<close>; the date is the creation time as
  \<^verbatim>\<open>time.Format\<close> renders it in the local time zone, a string here.
\<close>

definition defaultMessage :: "string \<Rightarrow> string \<Rightarrow> string \<Rightarrow> string" where
  "defaultMessage version folder date =
     ''Version '' @ version @ '': '' @ folder @ '' (created: '' @ date @ '')''"

definition templateMessage ::
  "string \<Rightarrow> string \<Rightarrow> string \<Rightarrow> string \<Rightarrow> nat \<Rightarrow> string \<Rightarrow> string" where
  "templateMessage template version folder date fileCount authorName =
     (let m1 = ReplaceAll template ''{version}'' version;
          m2 = ReplaceAll m1 ''{folder}'' folder;
          m3 = ReplaceAll m2 ''{date}'' date;
          m4 = ReplaceAll m3 ''{files}'' (Sprintf_d fileCount)
      in ReplaceAll m4 ''{author}'' authorName)"

text \<open>
  What the scan of the existing commits in \<^verbatim>\<open>MigrateToGit\<close> reads out of one commit
  message: nothing when the message does not contain \<^verbatim>\<open>Version\<close>, else the first piece
  before a colon, without the prefix \<^verbatim>\<open>Version\<close> and without surrounding white space.
\<close>

definition versionOfMessage :: "string \<Rightarrow> string option" where
  "versionOfMessage msg =
     (if Contains msg ''Version''
      then (let parts = Split msg CHR '':''
            in if length parts > 0
               then Some (TrimSpace (TrimPrefix (parts ! 0) ''Version''))
               else None)
      else None)"

subsection \<open>The file system\<close>

text \<open>
  A file-system object, as \<^verbatim>\<open>os.Lstat\<close> shows it, with what is below it: a regular
  file (content, permission bits, modification time), a symbolic link (its own
  modification time and the path it names: whether that path starts at the root, and
  its components, each a name or \<^verbatim>\<open>..\<close>), or a directory with its entries in the
  order in which the directory lists them. The flag of a directory says whether it can
  be listed: where it is \<open>False\<close>, \<^verbatim>\<open>os.ReadDir\<close> and the walk's \<^verbatim>\<open>readDirNames\<close>
  fail on it.
\<close>

datatype comp = Up | Name string

datatype node =
    File string nat int
  | Symlink int bool "comp list"
  | Dir bool "(string \<times> node) list"

datatype os_error = ENOENT | ENOTDIR | EISDIR | EACCES | EEXIST | ENOTEMPTY | ELOOP

fun isDir :: "node \<Rightarrow> bool" where
  "isDir (Dir r es) = True"
| "isDir n = False"

fun isSymlink :: "node \<Rightarrow> bool" where
  "isSymlink (Symlink t a tg) = True"
| "isSymlink n = False"

fun modTime :: "node \<Rightarrow> int" where
  "modTime (File c m t) = t"
| "modTime (Symlink t a tg) = t"
| "modTime (Dir r es) = 0"

text \<open>
  What is at a path below a directory tree when no symbolic link is followed: every
  component but the last has to be a directory.
\<close>

fun lookup :: "node \<Rightarrow> path \<Rightarrow> node option" where
  "lookup n [] = Some n"
| "lookup (Dir r es) (x # xs) = (case map_of es x of None \<Rightarrow> None | Some c \<Rightarrow> lookup c xs)"
| "lookup (File c m t) (x # xs) = None"
| "lookup (Symlink t a tg) (x # xs) = None"

text \<open>
  Path resolution, as the operating system does it for \<^verbatim>\<open>os.Stat\<close>, \<^verbatim>\<open>os.Open\<close>,
  \<^verbatim>\<open>os.Create\<close>, \<^verbatim>\<open>os.ReadDir\<close> and \<^verbatim>\<open>os.Mkdir\<close>, in the tree \<open>fs\<close> of the root
  directory: the components are taken one after the other, starting in a directory
  \<open>cur\<close>; \<^verbatim>\<open>..\<close> leads to the parent directory; a symbolic link is replaced by the
  path it names, which starts in the directory the link is in unless it starts at the
  root; the number of links followed is bounded (\<^verbatim>\<open>ELOOP\<close>). The result is the path,
  free of links, of the object found, or of a last component that is missing in a
  directory that was found, or an error. The components of a path handed to the
  operating system are names (the converter joins cleaned paths and entry
  names); \<^verbatim>\<open>..\<close> comes from the text of a link only.
\<close>

datatype resolved = Found path | Missing path | Failed os_error

fun resolveAt :: "nat \<Rightarrow> node \<Rightarrow> path \<Rightarrow> comp list \<Rightarrow> resolved" where
  "resolveAt k fs cur [] = Found cur"
| "resolveAt k fs cur (Up # cs) = resolveAt k fs (butlast cur) cs"
| "resolveAt k fs cur (Name c # cs) =
     (case lookup fs (cur @ [c]) of
        None \<Rightarrow> if cs = [] then Missing (cur @ [c]) else Failed ENOENT
      | Some (File d m t) \<Rightarrow> if cs = [] then Found (cur @ [c]) else Failed ENOTDIR
      | Some (Dir r es) \<Rightarrow> resolveAt k fs (cur @ [c]) cs
      | Some (Symlink t a tg) \<Rightarrow>
          (case k of
             0 \<Rightarrow> Failed ELOOP
           | Suc k' \<Rightarrow> resolveAt k' fs (if a then [] else cur) (tg @ cs)))"

definition maxLinks :: nat where
  "maxLinks = 40"

definition resolve :: "node \<Rightarrow> path \<Rightarrow> resolved" where
  "resolve fs p = resolveAt maxLinks fs [] (map Name p)"

text \<open>
  \<^verbatim>\<open>os.Stat\<close> follows the links of the whole path; \<^verbatim>\<open>os.Lstat\<close> follows the links on
  the way to the last component and not the last component itself.
\<close>

definition stat :: "node \<Rightarrow> path \<Rightarrow> node option" where
  "stat fs p = (case resolve fs p of Found q \<Rightarrow> lookup fs q | _ \<Rightarrow> None)"

definition lstat :: "node \<Rightarrow> path \<Rightarrow> node option" where
  "lstat fs p =
     (if p = [] then Some fs
      else (case resolve fs (butlast p) of
              Found q \<Rightarrow> (case lookup fs q of
                            Some (Dir r es) \<Rightarrow> map_of es (last p)
                          | _ \<Rightarrow> None)
            | _ \<Rightarrow> None))"

text \<open>
  The environment of a run: what the source side of the file system holds at a path
  (the converter only reads it), as \<^verbatim>\<open>os.Lstat\<close> shows it and as \<^verbatim>\<open>os.Stat\<close> and
  \<^verbatim>\<open>os.Open\<close> find it (the two differ at a symbolic link, where the second is what
  the link leads to, if anything), the clock, the rendering of a time by
  \<^verbatim>\<open>Format("2006-01-02 15:04:05")\<close> in the local zone, the home directory
  (\<^verbatim>\<open>os.UserHomeDir\<close>, which may fail), the paths at which \<^verbatim>\<open>os.Remove\<close> is refused by
  the system, the content of the files \<^verbatim>\<open>os.ReadFile\<close> can read, the regular
  expressions that compile, each with its \<^verbatim>\<open>FindString\<close>, the matches of
  \<^verbatim>\<open>filepath.Glob\<close> for a directory and a pattern (\<open>None\<close> for a malformed pattern),
  the permission bits \<^verbatim>\<open>os.Create\<close> gives a new file (\<^verbatim>\<open>0666\<close> less the umask), and
  whether the Git library refuses a commit that changes nothing (the repository names no
  version of go-git; \<^verbatim>\<open>Worktree.Commit\<close> of the later versions returns
  \<^verbatim>\<open>ErrEmptyCommit\<close> then, since the converter leaves \<^verbatim>\<open>AllowEmptyCommits\<close> unset, and
  the earlier ones commit).
\<close>

record env =
  srcLstat :: "path \<Rightarrow> node option"
  srcStat :: "path \<Rightarrow> node option"
  now :: int
  fmtTime :: "int \<Rightarrow> string"
  userHomeDir :: "path option"
  removeDenied :: "path \<Rightarrow> bool"
  readFile :: "string \<Rightarrow> string option"
  regexpCompile :: "string \<Rightarrow> (string \<Rightarrow> string) option"
  glob :: "path \<Rightarrow> string \<Rightarrow> path list option"
  createMode :: nat
  emptyCommitRefused :: bool

subsection \<open>filepath.Walk\<close>

text \<open>
  What a \<^verbatim>\<open>WalkFunc\<close> returns: \<^verbatim>\<open>nil\<close>, \<^verbatim>\<open>filepath.SkipDir\<close> or another error. The
  function is called with the path relative to the root of the walk, the \<^verbatim>\<open>FileInfo\<close>
  and the error of reading the directory, and it transforms the variables it closes over.
  \<open>walk\<close> follows the library: a directory is listed first and the function called
  once with the outcome; \<^verbatim>\<open>SkipDir\<close> returned for a directory skips that directory, and
  returned for a file it skips the rest of the directory the file is in.
\<close>

datatype walk_ctl = Continue | SkipDir | Abort os_error

type_synonym 's walk_func = "path \<Rightarrow> node option \<Rightarrow> os_error option \<Rightarrow> 's \<Rightarrow> walk_ctl \<times> 's"

fun walk :: "'s walk_func \<Rightarrow> path \<Rightarrow> node \<Rightarrow> 's \<Rightarrow> walk_ctl \<times> 's"
  and walkNames :: "'s walk_func \<Rightarrow> path \<Rightarrow> (string \<times> node) list \<Rightarrow> 's \<Rightarrow> walk_ctl \<times> 's"
where
  "walk fn p (File c m t) st = fn p (Some (File c m t)) None st"
| "walk fn p (Symlink t a tg) st = fn p (Some (Symlink t a tg)) None st"
| "walk fn p (Dir r es) st =
     (let err = (if r then None else Some EACCES);
          res = fn p (Some (Dir r es)) err st
      in if err \<noteq> None \<or> fst res \<noteq> Continue then res else walkNames fn p es (snd res))"
| "walkNames fn p [] st = (Continue, st)"
| "walkNames fn p (e # es) st =
     (let res = walk fn (p @ [fst e]) (snd e) st
      in case fst res of
           Continue \<Rightarrow> walkNames fn p es (snd res)
         | SkipDir \<Rightarrow> if isDir (snd e) then walkNames fn p es (snd res) else res
         | Abort x \<Rightarrow> res)"

definition Walk :: "'s walk_func \<Rightarrow> node option \<Rightarrow> 's \<Rightarrow> walk_ctl \<times> 's" where
  "Walk fn root st =
     (let res = (case root of
                   None \<Rightarrow> fn [] None (Some ENOENT) st
                 | Some n \<Rightarrow> walk fn [] n st)
      in if fst res = SkipDir then (Continue, snd res) else res)"

subsection \<open>getFolderCreationTime\<close>

definition keyFilePatterns :: "string list" where
  "keyFilePatterns =
    [''version.py'', ''version.txt'', ''VERSION'',
     ''main.py'', ''app.py'', ''bot.py'', ''config.py'',
     ''requirements.txt'', ''setup.py'',
     ''Dockerfile'', ''docker-compose.yml'']"

text \<open>
  \<^verbatim>\<open>strings.ToLower\<close> on the bytes of a name, as far as the comparison with the key
  patterns can tell: the ASCII capital letters are lowered, the Kelvin sign U+212A
  (bytes E2 84 AA) becomes \<^verbatim>\<open>k\<close> and the capital I with a dot U+0130 (bytes C4 B0)
  becomes \<^verbatim>\<open>i\<close>. Every other rune outside ASCII is mapped by the library to a rune
  outside ASCII, whose bytes no key pattern contains; these bytes are left as they are.
\<close>

fun ToLower :: "string \<Rightarrow> string" where
  "ToLower [] = []"
| "ToLower (c # cs) =
     (if 65 \<le> (of_char c :: nat) \<and> (of_char c :: nat) \<le> 90
      then char_of ((of_char c :: nat) + 32) # ToLower cs
      else if HasPrefix (c # cs) [CHR 0xE2, CHR 0x84, CHR 0xAA]
      then CHR ''k'' # ToLower (drop 2 cs)
      else if HasPrefix (c # cs) [CHR 0xC4, CHR 0xB0]
      then CHR ''i'' # ToLower (drop 1 cs)
      else c # ToLower cs)"

definition isKeyFile :: "string \<Rightarrow> bool" where
  "isKeyFile base = list_ex (\<lambda>pattern. Contains (ToLower base) (ToLower pattern)) keyFilePatterns"

definition maxFiles :: nat where
  "maxFiles = 500"

definition skippedDirName :: "string \<Rightarrow> bool" where
  "skippedDirName base =
     (HasPrefix base ''.'' \<or> base = ''__pycache__'' \<or>
      base = ''venv'' \<or> base = ''env'' \<or> base = ''.venv'')"

text \<open>
  The walk function of \<^verbatim>\<open>getFolderCreationTime\<close>; its variables are \<^verbatim>\<open>fileTimes\<close> and
  \<^verbatim>\<open>processedFiles\<close>.
\<close>

definition timeVisit :: "path \<Rightarrow> (int list \<times> nat) walk_func" where
  "timeVisit folderPath rel info err st =
     (case err of
        Some e \<Rightarrow> (Continue, st)
      | None \<Rightarrow>
         (case info of
            None \<Rightarrow> (Continue, st)
          | Some n \<Rightarrow>
             (let base = Base (folderPath @ rel) in
              if isDir n then
                (if skippedDirName base then (SkipDir, st) else (Continue, st))
              else if snd st \<ge> maxFiles then (SkipDir, st)
              else if HasPrefix base ''.'' \<or> HasSuffix base ''.pyc'' then (Continue, st)
              else
                (let fileTimes = fst st @ [modTime n];
                     fileTimes' = (if isKeyFile base then fileTimes @ [modTime n] else fileTimes)
                 in (Continue, (fileTimes', snd st + 1))))))"

definition getFolderCreationTime :: "env \<Rightarrow> path \<Rightarrow> int" where
  "getFolderCreationTime e folderPath =
     (let res = Walk (timeVisit folderPath) (srcLstat e folderPath) ([], 0);
          fileTimes = fst (snd res)
      in if fst res \<noteq> Continue \<or> length fileTimes = 0 then now e
         else sort fileTimes ! (length fileTimes div 2))"

subsection \<open>Errors\<close>

datatype error =
    ErrInvalidPattern
  | ErrGlob
  | ErrNoFoldersFound
  | ErrMkdir os_error
  | ErrInit
  | ErrRepositoryNotFound
  | ErrOpen
  | ErrClear os_error
  | ErrCopy os_error
  | ErrCommit

subsection \<open>FindVersionedFolders\<close>

text \<open>
  The loop over the matches of the glob: a match that \<^verbatim>\<open>os.Stat\<close> does not show as a
  directory is passed over, and so is one in whose name the expression finds nothing.
\<close>

definition statIsDir :: "env \<Rightarrow> path \<Rightarrow> bool" where
  "statIsDir e p = (case srcStat e p of Some n \<Rightarrow> isDir n | None \<Rightarrow> False)"

fun collectFolders :: "env \<Rightarrow> (string \<Rightarrow> string) \<Rightarrow> path list \<Rightarrow> FolderInfo list" where
  "collectFolders e re [] = []"
| "collectFolders e re (p # matches) =
     (if \<not> statIsDir e p then collectFolders e re matches
      else (let name = Base p; version = re name
            in if version \<noteq> []
               then \<lparr> Path = p, Version = version,
                      CreationTime = getFolderCreationTime e p \<rparr> # collectFolders e re matches
               else collectFolders e re matches))"

text \<open>
  \<^verbatim>\<open>sort.Slice\<close> orders by \<^verbatim>\<open>CreationTime\<close> and promises nothing about folders with
  equal times; the model keeps them in the order of discovery.
\<close>

definition FindVersionedFolders :: "env \<Rightarrow> Config \<Rightarrow> error + FolderInfo list" where
  "FindVersionedFolders e config =
     (case regexpCompile e (ExtractPattern config) of
        None \<Rightarrow> Inl ErrInvalidPattern
      | Some re \<Rightarrow>
         (case glob e (SourceDir config) (Pattern config) of
            None \<Rightarrow> Inl ErrGlob
          | Some matches \<Rightarrow>
             (let folders = sort_key CreationTime (collectFolders e re matches)
              in if length folders = 0 then Inl ErrNoFoldersFound else Inr folders)))"

text \<open>The folders found by the time \<^verbatim>\<open>FindVersionedFolders\<close> returns.\<close>

definition discovered :: "env \<Rightarrow> Config \<Rightarrow> FolderInfo list" where
  "discovered e config =
     (case regexpCompile e (ExtractPattern config) of
        None \<Rightarrow> []
      | Some re \<Rightarrow>
         (case glob e (SourceDir config) (Pattern config) of
            None \<Rightarrow> []
          | Some matches \<Rightarrow> collectFolders e re matches))"

subsection \<open>getAuthorInfo\<close>

fun findAuthor :: "string \<Rightarrow> string list \<Rightarrow> string \<times> string" where
  "findAuthor version [] = ([], [])"
| "findAuthor version (l # lines) =
     (let line = TrimSpace l in
      if line = [] \<or> HasPrefix line ''#'' then findAuthor version lines
      else (let parts = Split line CHR '':''
            in if length parts \<ge> 3 \<and> parts ! 0 = version then (parts ! 1, parts ! 2)
               else findAuthor version lines))"

definition getAuthorInfo :: "env \<Rightarrow> string \<Rightarrow> string \<Rightarrow> os_error + string \<times> string" where
  "getAuthorInfo e version authorsFile =
     (if authorsFile = [] then Inr ([], [])
      else (case readFile e authorsFile of
              None \<Rightarrow> Inl ENOENT
            | Some data \<Rightarrow> Inr (findAuthor version (Split data CHR 0x0A))))"

subsection \<open>Writing to the file system\<close>

text \<open>
  \<open>putAt fs q v\<close> puts \<open>v\<close> at the path \<open>q\<close>, which is free of links and whose parent
  is a directory of \<open>fs\<close>. A new entry goes to the end of its directory.
\<close>

fun setEntry :: "'k \<Rightarrow> 'v \<Rightarrow> ('k \<times> 'v) list \<Rightarrow> ('k \<times> 'v) list" where
  "setEntry x n [] = [(x, n)]"
| "setEntry x n (e # es) = (if fst e = x then (x, n) # es else e # setEntry x n es)"

fun putAt :: "node \<Rightarrow> path \<Rightarrow> node \<Rightarrow> node" where
  "putAt n [] v = v"
| "putAt (Dir r es) [x] v = Dir r (setEntry x v es)"
| "putAt (Dir r es) (x # y # ys) v =
     (case map_of es x of
        None \<Rightarrow> Dir r es
      | Some c \<Rightarrow> Dir r (setEntry x (putAt c (y # ys) v) es))"
| "putAt (File c m t) (x # xs) v = File c m t"
| "putAt (Symlink t a tg) (x # xs) v = Symlink t a tg"

text \<open>
  \<^verbatim>\<open>os.Mkdir\<close> creates the last component in the directory the rest of the path leads
  to, and fails where that name is taken. \<^verbatim>\<open>os.MkdirAll\<close> follows the library: when
  \<^verbatim>\<open>os.Stat\<close> finds a directory there is nothing to do, and when it finds
  something else the call fails; otherwise the parent is made first, unless it is the
  root, then the directory itself, and the failure of that is no error when
  \<^verbatim>\<open>os.Lstat\<close> then shows a directory. The result is the error, if any, and the file
  system as the call leaves it.
\<close>

definition mkdir :: "node \<Rightarrow> path \<Rightarrow> os_error + node" where
  "mkdir fs p =
     (if p = [] then Inl EEXIST
      else (case resolve fs (butlast p) of
              Found q \<Rightarrow>
                (case lookup fs q of
                   Some (Dir r es) \<Rightarrow>
                     (case map_of es (last p) of
                        None \<Rightarrow> Inr (putAt fs (q @ [last p]) (Dir True []))
                      | Some c \<Rightarrow> Inl EEXIST)
                 | _ \<Rightarrow> Inl ENOTDIR)
            | Missing q \<Rightarrow> Inl ENOENT
            | Failed x \<Rightarrow> Inl x))"

function mkdirAll :: "node \<Rightarrow> path \<Rightarrow> os_error option \<times> node" where
  "mkdirAll fs p =
     (case stat fs p of
        Some n \<Rightarrow> (if isDir n then None else Some ENOTDIR, fs)
      | None \<Rightarrow>
         (let up = (if butlast p = [] then (None, fs) else mkdirAll fs (butlast p))
          in if fst up \<noteq> None then up
             else (case mkdir (snd up) p of
                     Inr fs' \<Rightarrow> (None, fs')
                   | Inl x \<Rightarrow>
                      (case lstat (snd up) p of
                         Some (Dir r es) \<Rightarrow> (None, snd up)
                       | _ \<Rightarrow> (Some x, snd up)))))"
  by pat_completeness auto

termination mkdirAll
proof (relation "measure (\<lambda>(fs, p). length p)")
  show "wf (measure (\<lambda>(fs, p). length p))" by simp
next
  fix fs :: node and p :: path
  assume "butlast p \<noteq> []"
  then have "p \<noteq> []" by auto
  then show "((fs, butlast p), (fs, p)) \<in> measure (\<lambda>(fs, p). length p)" by simp
qed

declare mkdirAll.simps [simp del]

text \<open>
  \<^verbatim>\<open>os.Create\<close> follows the links of the whole path: it truncates the regular file the
  path leads to, or creates the file where the last step of the resolution finds
  nothing in a directory. \<open>createPlace\<close> is the path, free of links, of that file.
\<close>

definition createPlace :: "node \<Rightarrow> path \<Rightarrow> os_error + path" where
  "createPlace fs p =
     (case resolve fs p of
        Found q \<Rightarrow>
          (case lookup fs q of
             Some (File c m t) \<Rightarrow> Inr q
           | Some (Dir r es) \<Rightarrow> Inl EISDIR
           | _ \<Rightarrow> Inl ENOENT)
      | Missing q \<Rightarrow> Inr q
      | Failed x \<Rightarrow> Inl x)"

text \<open>
  \<^verbatim>\<open>copyFile\<close>: \<^verbatim>\<open>os.Open\<close> of the source, which follows a link and fails where the
  link leads to nothing; \<^verbatim>\<open>os.Create\<close> of the destination; \<^verbatim>\<open>io.Copy\<close>, which fails
  when what was opened is a directory and leaves the destination empty then; and
  \<^verbatim>\<open>os.Chmod\<close> of the destination to the mode \<^verbatim>\<open>os.Stat\<close> shows for the source. The
  arguments are the path of the source and what the walk saw there, the file system
  and the path of the destination.
\<close>

definition openSource :: "env \<Rightarrow> path \<Rightarrow> node \<Rightarrow> node option" where
  "openSource e src info =
     (case info of
        Symlink t a tg \<Rightarrow> (case srcStat e src of
                             Some (Symlink t' a' tg') \<Rightarrow> None
                           | r \<Rightarrow> r)
      | n \<Rightarrow> Some n)"

definition copyFile :: "env \<Rightarrow> path \<Rightarrow> node \<Rightarrow> node \<Rightarrow> path \<Rightarrow> os_error option \<times> node" where
  "copyFile e src info fs dst =
     (case openSource e src info of
        None \<Rightarrow> (Some ENOENT, fs)
      | Some opened \<Rightarrow>
         (case createPlace fs dst of
            Inl x \<Rightarrow> (Some x, fs)
          | Inr q \<Rightarrow>
             (case opened of
                File c m t \<Rightarrow> (None, putAt fs q (File c m (now e)))
              | _ \<Rightarrow>
                 (Some EISDIR,
                  putAt fs q (File [] (case lookup fs q of
                                         Some (File c' m' t') \<Rightarrow> m'
                                       | _ \<Rightarrow> createMode e) (now e))))))"

subsection \<open>clearDirectory\<close>

definition systemDirs :: "string list" where
  "systemDirs =
    [''.git'', ''.Trash'', ''.Trashes'', ''.config'', ''.cache'', ''.local'',
     ''Library'', ''Applications'', ''System'', ''Users'',
     ''bin'', ''etc'', ''usr'', ''var'', ''tmp'', ''opt'']"

text \<open>
  The string of a path, and \<^verbatim>\<open>filepath.Rel\<close> of two absolute paths: the common leading
  components are dropped, each component left of the base becomes \<^verbatim>\<open>..\<close>.
\<close>

definition pathString :: "path \<Rightarrow> string" where
  "pathString p = (if p = [] then ''/'' else concat (map (\<lambda>c. CHR ''/'' # c) p))"

fun joinSlash :: "string list \<Rightarrow> string" where
  "joinSlash [] = []"
| "joinSlash [x] = x"
| "joinSlash (x # y # ys) = x @ CHR ''/'' # joinSlash (y # ys)"

fun stripCommon :: "path \<Rightarrow> path \<Rightarrow> path \<times> path" where
  "stripCommon (a # as) (b # bs) = (if a = b then stripCommon as bs else (a # as, b # bs))"
| "stripCommon as bs = (as, bs)"

definition Rel :: "path \<Rightarrow> path \<Rightarrow> string" where
  "Rel basepath targpath =
     (let r = stripCommon basepath targpath
      in if fst r = [] \<and> snd r = [] then ''.''
         else joinSlash (replicate (length (fst r)) ''..'' @ snd r))"

text \<open>
  The two guards at the head of \<^verbatim>\<open>clearDirectory\<close>: the directory has a protected
  name, or it is under the home directory at a relative path that starts with a dot and
  has no two dots in a row. The relative path of the home directory itself is a dot.
\<close>

definition underHiddenHome :: "env \<Rightarrow> path \<Rightarrow> bool" where
  "underHiddenHome e dir =
     (case userHomeDir e of
        None \<Rightarrow> False
      | Some homeDir \<Rightarrow>
          HasPrefix (pathString dir) (pathString homeDir) \<and>
          HasPrefix (Rel homeDir dir) ''.'' \<and> \<not> Contains (Rel homeDir dir) ''..'')"

definition clearRefused :: "env \<Rightarrow> path \<Rightarrow> bool" where
  "clearRefused e dir = (Base dir \<in> set systemDirs \<or> underHiddenHome e dir)"

text \<open>
  \<open>clearDirectory e dir n\<close> is the call for the directory at path \<open>dir\<close> when
  \<open>n\<close> is the tree that \<^verbatim>\<open>os.ReadDir\<close> finds there. It fails only where the
  directory cannot be listed, and then nothing was removed. \<open>clearEntries\<close> is the
  loop over the entries: an entry is kept when its name is protected, when it is a
  symbolic link, when it is a directory that could not be cleared or removed
  (\<^verbatim>\<open>os.Remove\<close> fails on a directory that is not empty), and when it is a file whose
  removal the system refuses. \<^verbatim>\<open>os.Lstat\<close> of a listed entry succeeds in the model.
\<close>

fun isEmptyDir :: "node \<Rightarrow> bool" where
  "isEmptyDir (Dir r es) = (es = [])"
| "isEmptyDir n = False"

fun clearDirectory :: "env \<Rightarrow> path \<Rightarrow> node \<Rightarrow> os_error + node"
  and clearEntries :: "env \<Rightarrow> path \<Rightarrow> (string \<times> node) list \<Rightarrow> (string \<times> node) list"
where
  "clearDirectory e dir (Dir r es) =
     (if clearRefused e dir then Inr (Dir r es)
      else if \<not> r then Inl EACCES
      else Inr (Dir r (clearEntries e dir es)))"
| "clearDirectory e dir (File c m t) =
     (if clearRefused e dir then Inr (File c m t) else Inl ENOTDIR)"
| "clearDirectory e dir (Symlink t a tg) =
     (if clearRefused e dir then Inr (Symlink t a tg) else Inl ENOENT)"
| "clearEntries e dir [] = []"
| "clearEntries e dir (en # es) =
     (if fst en \<in> set systemDirs then en # clearEntries e dir es
      else if isSymlink (snd en) then en # clearEntries e dir es
      else if isDir (snd en) then
        (case clearDirectory e (dir @ [fst en]) (snd en) of
           Inl err \<Rightarrow> en # clearEntries e dir es
         | Inr n' \<Rightarrow>
            (if isEmptyDir n' \<and> \<not> removeDenied e (dir @ [fst en])
             then clearEntries e dir es
             else (fst en, n') # clearEntries e dir es))
      else if removeDenied e (dir @ [fst en]) then en # clearEntries e dir es
      else clearEntries e dir es)"

text \<open>
  The call on the file system: after the two guards, \<^verbatim>\<open>os.ReadDir\<close> follows the
  links of the path to the directory; what is removed is removed below the directory
  found.
\<close>

definition clearDirectoryAt :: "env \<Rightarrow> path \<Rightarrow> node \<Rightarrow> os_error + node" where
  "clearDirectoryAt e dir fs =
     (if clearRefused e dir then Inr fs
      else (case resolve fs dir of
              Found q \<Rightarrow>
                (case lookup fs q of
                   None \<Rightarrow> Inl ENOENT
                 | Some n \<Rightarrow>
                    (case clearDirectory e dir n of
                       Inl x \<Rightarrow> Inl x
                     | Inr n' \<Rightarrow> Inr (putAt fs q n')))
            | Missing q \<Rightarrow> Inl ENOENT
            | Failed x \<Rightarrow> Inl x))"

subsection \<open>copyFilesAndTrack\<close>

definition ignoreDirs :: "string list" where
  "ignoreDirs =
    [''.git'', ''__pycache__'', ''venv'', ''.venv'', ''node_modules'',
     ''.idea'', ''.vscode'', ''dist'', ''build'', ''env'']"

definition ignoreFiles :: "string list" where
  "ignoreFiles =
    [''.DS_Store'', ''*.pyc'', ''*.pyo'', ''*.pyd'', ''.gitignore'', ''.gitattributes'',
     ''*.swp'', ''*.swo'', ''*.log'', ''*.bak'']"

text \<open>
  \<^verbatim>\<open>filepath.Match\<close> for patterns made of literal bytes and \<^verbatim>\<open>*\<close>, which is what the
  ignore list holds; such a pattern is never malformed. The name matched is a base name
  and has no separator in it.
\<close>

fun Match :: "string \<Rightarrow> string \<Rightarrow> bool" where
  "Match [] name = (name = [])"
| "Match (p # ps) [] = (p = CHR ''*'' \<and> Match ps [])"
| "Match (p # ps) (c # cs) =
     (if p = CHR ''*'' then Match ps (c # cs) \<or> Match (p # ps) cs
      else p = c \<and> Match ps cs)"

definition ignoredFile :: "string \<Rightarrow> bool" where
  "ignoredFile name = list_ex (\<lambda>pattern. Match pattern name) ignoreFiles"


text \<open>
  The walk function of \<^verbatim>\<open>copyFilesAndTrack\<close>; its variables are the file system,
  \<^verbatim>\<open>fileCount\<close> and \<^verbatim>\<open>newFiles\<close>. The source folder is read as the environment shows
  it: what the copy writes is taken not to change the folder that is being walked.
\<close>

definition copyVisit ::
  "env \<Rightarrow> path \<Rightarrow> path \<Rightarrow> bool \<Rightarrow> (node \<times> nat \<times> path list) walk_func" where
  "copyVisit e src dst appendMode rel info err st =
     (case err of
        Some x \<Rightarrow> (Abort x, st)
      | None \<Rightarrow>
         (if rel = [] then (Continue, st)
          else (case info of
                  None \<Rightarrow> (Continue, st)
                | Some n \<Rightarrow>
                   (if isDir n then
                      (if Base rel \<in> set ignoreDirs then (SkipDir, st) else (Continue, st))
                    else if ignoredFile (Base rel) then (Continue, st)
                    else
                      (let made = mkdirAll (fst st) (dst @ butlast rel);
                           t1 = snd made
                       in case fst made of
                            Some x \<Rightarrow> (Abort x, (t1, snd st))
                          | None \<Rightarrow>
                             (if appendMode \<and> stat t1 (dst @ rel) \<noteq> None
                              then (Continue, (t1, snd st))
                              else (let done = copyFile e (src @ rel) n t1 (dst @ rel);
                                        t2 = snd done
                                    in case fst done of
                                         Some x \<Rightarrow> (Abort x, (t2, snd st))
                                       | None \<Rightarrow>
                                          (Continue,
                                           (t2, fst (snd st) + 1,
                                            snd (snd st) @ [dst @ rel])))))))))"

definition copyFilesAndTrack ::
  "env \<Rightarrow> path \<Rightarrow> path \<Rightarrow> node \<Rightarrow> bool \<Rightarrow> (node \<times> nat \<times> path list) \<times> os_error option" where
  "copyFilesAndTrack e src dst fs appendMode =
     (let res = Walk (copyVisit e src dst appendMode) (srcLstat e src) (fs, 0, [])
      in (snd res, case fst res of Abort x \<Rightarrow> Some x | _ \<Rightarrow> None))"

subsection \<open>The Git library\<close>

text \<open>
  The repository as the converter uses it: the references, the objects by hash, and the
  index, which holds for each path added what was added (the content of a file and
  whether its owner may execute it, or the text of a symbolic link). A reference holds a
  hash or names another reference. Of a commit, the message, the author signature, the
  parents and the tree are kept; the tree of a commit is the index at the time of the
  commit. Enumerating the references and obtaining the work tree of a repository that
  was opened from a directory with \<^verbatim>\<open>.git\<close> in it succeed in the model.
\<close>

datatype reference = HashReference nat | SymbolicReference string

datatype blob = FileBlob string bool | LinkBlob bool "comp list"

record commit =
  Message :: string
  AuthorName :: string
  AuthorEmail :: string
  AuthorWhen :: int
  ParentHashes :: "nat list"
  Tree :: "(path \<times> blob) list"

datatype object = CommitObject commit | OtherObject

record repository =
  refs :: "(string \<times> reference) list"
  objects :: "(nat \<times> object) list"
  staged :: "(path \<times> blob) list"

text \<open>
  \<^verbatim>\<open>git.PlainInit\<close> makes the directory \<^verbatim>\<open>.git\<close> in the target directory and leaves a
  repository with \<^verbatim>\<open>HEAD\<close> naming the default branch. It is called where \<^verbatim>\<open>os.Stat\<close>
  found no \<^verbatim>\<open>.git\<close>, and it fails where the directory cannot be made.
\<close>

definition emptyRepository :: repository where
  "emptyRepository =
     \<lparr> refs = [(''HEAD'', SymbolicReference ''refs/heads/master'')], objects = [], staged = [] \<rparr>"

definition PlainInit :: "node \<Rightarrow> path \<Rightarrow> error + node \<times> repository" where
  "PlainInit fs dir =
     (case fst (mkdirAll fs (dir @ [''.git''])) of
        Some x \<Rightarrow> Inl ErrInit
      | None \<Rightarrow> Inr (snd (mkdirAll fs (dir @ [''.git''])), emptyRepository))"

fun resolveRef :: "nat \<Rightarrow> (string \<times> reference) list \<Rightarrow> string \<Rightarrow> nat option" where
  "resolveRef 0 rs name = None"
| "resolveRef (Suc k) rs name =
     (case map_of rs name of
        None \<Rightarrow> None
      | Some (HashReference h) \<Rightarrow> Some h
      | Some (SymbolicReference t) \<Rightarrow> resolveRef k rs t)"

definition freshHash :: "repository \<Rightarrow> nat" where
  "freshHash r = Suc (foldr max (map fst (objects r)) 0)"

text \<open>
  \<^verbatim>\<open>Worktree.Add\<close> of a path relative to the target directory enters what
  \<^verbatim>\<open>Lstat\<close> shows there into the index: a file, or a symbolic link as a link; a path
  at which nothing is found is taken out of the index. (A directory is not handed to
  it: the converter adds the files it has just written.)
\<close>

definition executable :: "nat \<Rightarrow> bool" where
  "executable m = ((m div 64) mod 2 = 1)"

definition Add :: "node \<Rightarrow> path \<Rightarrow> repository \<Rightarrow> path \<Rightarrow> repository" where
  "Add fs dir r relPath =
     (case lstat fs (dir @ relPath) of
        Some (File c m t) \<Rightarrow>
          r\<lparr> staged := setEntry relPath (FileBlob c (executable m)) (staged r) \<rparr>
      | Some (Symlink t a tg) \<Rightarrow> r\<lparr> staged := setEntry relPath (LinkBlob a tg) (staged r) \<rparr>
      | Some (Dir d es) \<Rightarrow> r
      | None \<Rightarrow> r\<lparr> staged := filter (\<lambda>x. fst x \<noteq> relPath) (staged r) \<rparr>)"

text \<open>
  \<^verbatim>\<open>Worktree.Commit\<close> stores a commit whose parent is the commit \<^verbatim>\<open>HEAD\<close> resolves
  to, if any, and whose tree is the index, and moves the branch \<^verbatim>\<open>HEAD\<close> names (or a
  detached \<^verbatim>\<open>HEAD\<close> itself) to it; without a \<^verbatim>\<open>HEAD\<close> reference it fails. A library
  that refuses empty commits fails, and stores nothing, when the index is empty, when
  the parent is not a commit, and when the tree is the tree of the parent.
\<close>

definition parentOf :: "repository \<Rightarrow> nat option" where
  "parentOf r = resolveRef (Suc (length (refs r))) (refs r) ''HEAD''"

definition changesNothing :: "repository \<Rightarrow> bool" where
  "changesNothing r =
     (staged r = [] \<or>
      (case parentOf r of
         None \<Rightarrow> False
       | Some p \<Rightarrow>
          (case map_of (objects r) p of
             Some (CommitObject c) \<Rightarrow> set (Tree c) = set (staged r)
           | _ \<Rightarrow> True)))"

definition Commit ::
  "env \<Rightarrow> repository \<Rightarrow> string \<Rightarrow> string \<Rightarrow> string \<Rightarrow> int \<Rightarrow> bool \<times> repository" where
  "Commit e r msg name email when =
     (if emptyCommitRefused e \<and> changesNothing r then (False, r)
      else
       (let h = freshHash r;
            c = \<lparr> Message = msg, AuthorName = name, AuthorEmail = email, AuthorWhen = when,
                  ParentHashes = (case parentOf r of None \<Rightarrow> [] | Some p \<Rightarrow> [p]),
                  Tree = staged r \<rparr>;
            r1 = r\<lparr> objects := objects r @ [(h, CommitObject c)] \<rparr>
        in case map_of (refs r) ''HEAD'' of
             None \<Rightarrow> (False, r1)
           | Some (HashReference old) \<Rightarrow>
               (True, r1\<lparr> refs := map (\<lambda>x. if fst x = ''HEAD'' then (''HEAD'', HashReference h) else x) (refs r) \<rparr>)
           | Some (SymbolicReference t) \<Rightarrow>
               (True, r1\<lparr> refs := (if map_of (refs r) t = None then refs r @ [(t, HashReference h)]
                                    else map (\<lambda>x. if fst x = t then (t, HashReference h) else x) (refs r)) \<rparr>)))"

subsection \<open>MigrateToGit\<close>

text \<open>
  The scan of the references in append mode: for each reference that holds a hash, the
  commit with that hash is read (a hash that is not a commit is passed over) and the
  version of its message entered into the map.
\<close>

definition scanRef :: "repository \<Rightarrow> (string \<rightharpoonup> bool) \<Rightarrow> string \<times> reference \<Rightarrow> (string \<rightharpoonup> bool)" where
  "scanRef r m ref =
     (case snd ref of
        SymbolicReference t \<Rightarrow> m
      | HashReference h \<Rightarrow>
         (case map_of (objects r) h of
            Some (CommitObject c) \<Rightarrow>
              (case versionOfMessage (Message c) of Some v \<Rightarrow> m(v \<mapsto> True) | None \<Rightarrow> m)
          | _ \<Rightarrow> m))"

definition existingVersionsOf :: "repository \<Rightarrow> (string \<rightharpoonup> bool)" where
  "existingVersionsOf r = foldl (scanRef r) Map.empty (refs r)"

definition resolveAuthor :: "env \<Rightarrow> Config \<Rightarrow> string \<Rightarrow> string \<times> string" where
  "resolveAuthor e config version =
     (if AuthorsFile config \<noteq> [] then
        (case getAuthorInfo e version (AuthorsFile config) of
           Inr (name, email) \<Rightarrow>
             (if name \<noteq> [] \<and> email \<noteq> [] then (name, email) else (Author config, Email config))
         | Inl err \<Rightarrow> (Author config, Email config))
      else (Author config, Email config))"

definition commitMessage :: "env \<Rightarrow> Config \<Rightarrow> FolderInfo \<Rightarrow> nat \<Rightarrow> string \<Rightarrow> string" where
  "commitMessage e config folder fileCount authorName =
     (if MessageTemplate config \<noteq> []
      then templateMessage (MessageTemplate config) (Version folder) (Base (Path folder))
             (fmtTime e (CreationTime folder)) fileCount authorName
      else defaultMessage (Version folder) (Base (Path folder)) (fmtTime e (CreationTime folder)))"


text \<open>
  The body of the loop over the folders, on the file system and the repository. The
  result says whether the loop goes on (\<open>None\<close>) or \<^verbatim>\<open>MigrateToGit\<close> returns an error.
  \<^verbatim>\<open>filepath.Rel\<close> of the target directory and a file below it drops the components
  of the target directory.
\<close>

definition processFolder ::
  "env \<Rightarrow> Config \<Rightarrow> (string \<rightharpoonup> bool) \<Rightarrow> FolderInfo \<Rightarrow> node \<times> repository
     \<Rightarrow> error option \<times> node \<times> repository" where
  "processFolder e config existingVersions folder st =
     (if Append config \<and> existingVersions (Version folder) = Some True then (None, st)
      else
        (case (if \<not> Append config then clearDirectoryAt e (TargetDir config) (fst st)
               else Inr (fst st)) of
           Inl err \<Rightarrow> (Some (ErrClear err), st)
         | Inr t1 \<Rightarrow>
            (let res = copyFilesAndTrack e (Path folder) (TargetDir config) t1 (Append config);
                 t2 = fst (fst res);
                 fileCount = fst (snd (fst res));
                 newFiles = snd (snd (fst res))
             in case snd res of
                  Some err \<Rightarrow> (Some (ErrCopy err), (t2, snd st))
                | None \<Rightarrow>
                   (if fileCount = 0 then (None, (t2, snd st))
                    else
                      (let author = resolveAuthor e config (Version folder);
                           commitMsg = commitMessage e config folder fileCount (fst author);
                           r1 = foldl (Add t2 (TargetDir config)) (snd st)
                                  (map (drop (length (TargetDir config))) newFiles);
                           done = Commit e r1 commitMsg (fst author) (snd author)
                                    (CreationTime folder)
                       in if fst done then (None, (t2, snd done))
                          else (Some ErrCommit, (t2, snd done)))))))"

fun processFolders ::
  "env \<Rightarrow> Config \<Rightarrow> (string \<rightharpoonup> bool) \<Rightarrow> FolderInfo list \<Rightarrow> node \<times> repository
     \<Rightarrow> error option \<times> node \<times> repository" where
  "processFolders e config existingVersions [] st = (None, st)"
| "processFolders e config existingVersions (folder # folders) st =
     (let res = processFolder e config existingVersions folder st
      in if fst res = None then processFolders e config existingVersions folders (snd res)
         else res)"

text \<open>
  The state \<^verbatim>\<open>MigrateToGit\<close> works on: the tree of the root directory, in which the
  target directory lies or will be made, and the repository that \<^verbatim>\<open>git.PlainOpen\<close>
  reads from the target directory, if it can. Messages to the log are left out.
\<close>

record world =
  disk :: node
  repo :: "repository option"

definition migrateIn ::
  "env \<Rightarrow> Config \<Rightarrow> FolderInfo list \<Rightarrow> node \<Rightarrow> repository \<Rightarrow> error option \<times> world" where
  "migrateIn e config folders t r =
     (let existingVersions = (if Append config then existingVersionsOf r else Map.empty);
          res = processFolders e config existingVersions folders (t, r)
      in (fst res, \<lparr> disk = fst (snd res), repo = Some (snd (snd res)) \<rparr>))"

definition MigrateToGit :: "env \<Rightarrow> Config \<Rightarrow> FolderInfo list \<Rightarrow> world \<Rightarrow> error option \<times> world" where
  "MigrateToGit e config folders w =
     (if DryRun config then (None, w)
      else
        (let made = mkdirAll (disk w) (TargetDir config);
             t = snd made
         in case fst made of
              Some err \<Rightarrow> (Some (ErrMkdir err), w\<lparr> disk := t \<rparr>)
            | None \<Rightarrow>
               (let repoExists = (stat t (TargetDir config @ [''.git'']) \<noteq> None) in
                if \<not> repoExists \<and> \<not> Append config then
                  (case PlainInit t (TargetDir config) of
                     Inl err \<Rightarrow> (Some err, w\<lparr> disk := t \<rparr>)
                   | Inr (t', r) \<Rightarrow> migrateIn e config folders t' r)
                else if Append config \<and> \<not> repoExists then
                  (Some ErrRepositoryNotFound, w\<lparr> disk := t \<rparr>)
                else
                  (case repo w of
                     None \<Rightarrow> (Some ErrOpen, w\<lparr> disk := t \<rparr>)
                   | Some r \<Rightarrow> migrateIn e config folders t r))))"

subsection \<open>What the timestamp inference is meant to collect\<close>

text \<open>
  The reading of the specification, to be compared with \<open>getFolderCreationTime\<close>: the
  files of the folder in the order of the walk, leaving out what lies in a directory
  whose name is hidden or a virtual-environment name or that cannot be listed, and the
  files whose name is hidden or ends in \<^verbatim>\<open>.pyc\<close>; the first 500 of them are the
  processed files; each contributes its modification time, twice when it is a key file.
\<close>

definition countedFile :: "string \<Rightarrow> bool" where
  "countedFile name = (\<not> HasPrefix name ''.'' \<and> \<not> HasSuffix name ''.pyc'')"

fun visible :: "string \<Rightarrow> node \<Rightarrow> (string \<times> int) list"
  and visibleEntries :: "(string \<times> node) list \<Rightarrow> (string \<times> int) list"
where
  "visible name (File c m t) = (if countedFile name then [(name, t)] else [])"
| "visible name (Symlink t a tg) = (if countedFile name then [(name, t)] else [])"
| "visible name (Dir r es) = (if skippedDirName name \<or> \<not> r then [] else visibleEntries es)"
| "visibleEntries [] = []"
| "visibleEntries (e # es) = visible (fst e) (snd e) @ visibleEntries es"

definition weigh :: "(string \<times> int) list \<Rightarrow> int list" where
  "weigh fs = concat (map (\<lambda>f. if isKeyFile (fst f) then [snd f, snd f] else [snd f]) fs)"

definition sampleTimes :: "string \<Rightarrow> node \<Rightarrow> int list" where
  "sampleTimes name root = weigh (take maxFiles (visible name root))"

definition upperMedian :: "int list \<Rightarrow> int" where
  "upperMedian ts = sort ts ! (length ts div 2)"

definition timeGoal ::
  "(string \<times> int) list \<Rightarrow> int list \<times> nat \<Rightarrow> walk_ctl \<times> int list \<times> nat \<Rightarrow> bool" where
  "timeGoal V st res =
     (snd res = (fst st @ weigh (take (maxFiles - snd st) V),
                 snd st + length (take (maxFiles - snd st) V)) \<and>
      (\<forall>x. fst res \<noteq> Abort x))"

subsection \<open>What the authors-mapping lookup is meant to return\<close>

text \<open>
  The reading of the specification, to be compared with \<open>resolveAuthor\<close>: the lines of
  the file without surrounding white space, blank lines and lines starting with \<^verbatim>\<open>#\<close>
  left out; the first of them with at least three fields whose first field is the
  version; its second and third field are the author, provided neither is empty.
\<close>

definition mappingLines :: "string \<Rightarrow> string list" where
  "mappingLines data =
     filter (\<lambda>l. \<not> (l = [] \<or> HasPrefix l ''#'')) (map TrimSpace (Split data CHR 0x0A))"

definition mapsVersion :: "string \<Rightarrow> string \<Rightarrow> bool" where
  "mapsVersion version l =
     (length (Split l CHR '':'') \<ge> 3 \<and> Split l CHR '':'' ! 0 = version)"

definition specAuthor :: "env \<Rightarrow> Config \<Rightarrow> string \<Rightarrow> string \<times> string" where
  "specAuthor e config version =
     (if AuthorsFile config = [] then (Author config, Email config)
      else (case readFile e (AuthorsFile config) of
              None \<Rightarrow> (Author config, Email config)
            | Some data \<Rightarrow>
               (case find (mapsVersion version) (mappingLines data) of
                  None \<Rightarrow> (Author config, Email config)
                | Some l \<Rightarrow>
                   (if Split l CHR '':'' ! 1 \<noteq> [] \<and> Split l CHR '':'' ! 2 \<noteq> []
                    then (Split l CHR '':'' ! 1, Split l CHR '':'' ! 2)
                    else (Author config, Email config)))))"

text \<open>The authors of the commits among the given objects, and their messages.\<close>

fun commitsOf :: "(nat \<times> object) list \<Rightarrow> commit list" where
  "commitsOf [] = []"
| "commitsOf ((h, CommitObject c) # os) = c # commitsOf os"
| "commitsOf ((h, OtherObject) # os) = commitsOf os"

definition authorsOf :: "(nat \<times> object) list \<Rightarrow> (string \<times> string) list" where
  "authorsOf os = map (\<lambda>c. (AuthorName c, AuthorEmail c)) (commitsOf os)"

definition messagesOf :: "world \<Rightarrow> string list" where
  "messagesOf w = (case repo w of None \<Rightarrow> [] | Some r \<Rightarrow> map Message (commitsOf (objects r)))"

subsection \<open>What the existing-version index is meant to hold\<close>

text \<open>
  The reading of the specification: the commits reachable from the references through
  the parents (the first argument bounds the depth, the number of objects is enough),
  and the versions their messages carry.
\<close>

fun history :: "nat \<Rightarrow> repository \<Rightarrow> nat list \<Rightarrow> commit list" where
  "history 0 r hs = []"
| "history (Suc k) r hs =
     concat (map (\<lambda>h. case map_of (objects r) h of
                         Some (CommitObject c) \<Rightarrow> c # history k r (ParentHashes c)
                       | _ \<Rightarrow> []) hs)"

fun tipHashes :: "(string \<times> reference) list \<Rightarrow> nat list" where
  "tipHashes [] = []"
| "tipHashes ((name, HashReference h) # rs) = h # tipHashes rs"
| "tipHashes ((name, SymbolicReference t) # rs) = tipHashes rs"

definition historyVersions :: "repository \<Rightarrow> string list" where
  "historyVersions r =
     concat (map (\<lambda>c. case versionOfMessage (Message c) of Some v \<Rightarrow> [v] | None \<Rightarrow> [])
                 (history (Suc (length (objects r))) r (tipHashes (refs r))))"


definition worldAuthors :: "world \<Rightarrow> (string \<times> string) list" where
  "worldAuthors w = (case repo w of None \<Rightarrow> [] | Some r \<Rightarrow> authorsOf (objects r))"

subsection \<open>What append mode is meant to leave alone\<close>

text \<open>
  \<open>keeps t t'\<close>: whatever is at a path in the tree \<open>t\<close> is still at that path in \<open>t'\<close>,
  a file or a link as it was, a directory as a directory. The paths are those that lead
  through directories only, so that each object of the file system is at one of them.
\<close>

definition keptAs :: "node \<Rightarrow> node option \<Rightarrow> bool" where
  "keptAs n r = (case r of None \<Rightarrow> False | Some n' \<Rightarrow> if isDir n then isDir n' else n' = n)"

definition keeps :: "node \<Rightarrow> node \<Rightarrow> bool" where
  "keeps t t' = (\<forall>p n. lookup t p = Some n \<longrightarrow> keptAs n (lookup t' p))"

subsection \<open>What non-append materialization is meant to leave in the target directory\<close>



text \<open>
  The filtered file set of a source folder: the relative paths of what is not a
  directory, has no ignored name and lies in no directory with an ignored name. The
  name of the folder itself is not looked at.
\<close>

fun filteredAt :: "string \<Rightarrow> node \<Rightarrow> path list"
  and filteredEntries :: "(string \<times> node) list \<Rightarrow> path list"
where
  "filteredAt name (File c m t) = (if ignoredFile name then [] else [[]])"
| "filteredAt name (Symlink t a tg) = (if ignoredFile name then [] else [[]])"
| "filteredAt name (Dir r es) = (if name \<in> set ignoreDirs then [] else filteredEntries es)"
| "filteredEntries [] = []"
| "filteredEntries (e # es) =
     map ((#) (fst e)) (filteredAt (fst e) (snd e)) @ filteredEntries es"

definition filteredFiles :: "node option \<Rightarrow> path list" where
  "filteredFiles root = (case root of Some (Dir r es) \<Rightarrow> filteredEntries es | _ \<Rightarrow> [])"

text \<open>
  \<open>onlyNew S t t'\<close>: what is in \<open>t'\<close> and is not a directory was already in \<open>t\<close>, the
  same, or is at one of the paths \<open>S\<close>.
\<close>

definition onlyNew :: "path set \<Rightarrow> node \<Rightarrow> node \<Rightarrow> bool" where
  "onlyNew S t t' =
     (\<forall>p x. lookup t' p = Some x \<longrightarrow> \<not> isDir x \<longrightarrow> lookup t p = Some x \<or> p \<in> S)"

text \<open>
  \<open>noNewLinks t t'\<close>: the root is still a directory, and every symbolic link of
  \<open>t'\<close> was in \<open>t\<close>, the same, at the same path.
\<close>

definition noNewLinks :: "node \<Rightarrow> node \<Rightarrow> bool" where
  "noNewLinks t t' =
     ((isDir t \<longrightarrow> isDir t') \<and>
      (\<forall>p mt a tg. lookup t' p = Some (Symlink mt a tg) \<longrightarrow>
                    lookup t p = Some (Symlink mt a tg)))"





definition untouched :: "(path \<Rightarrow> bool) \<Rightarrow> node \<Rightarrow> node \<Rightarrow> bool" where
  "untouched P t t' =
     (\<forall>p x. P p \<longrightarrow> lookup t p = Some x \<longrightarrow> \<not> isDir x \<longrightarrow> lookup t' p = Some x)"


subsection \<open>Example inputs\<close>

text \<open>
  A folder \<^verbatim>\<open>/src/v1\<close> with one file, modified at time 100, and one directory that
  cannot be listed; the clock shows 999.
\<close>

definition c7_folder :: node where
  "c7_folder = Dir True [(''a.txt'', File ''x'' 420 100), (''priv'', Dir False [])]"

text \<open>
  A folder \<^verbatim>\<open>/src/v2\<close> with a key file, another file, a hidden file and a
  virtual environment.
\<close>

definition c7_keyed :: node where
  "c7_keyed =
     Dir True [(''.hidden'', File ''h'' 420 5), (''main.py'', File ''m'' 420 300),
               (''notes.txt'', File ''n'' 420 100),
               (''venv'', Dir True [(''x.py'', File ''x'' 420 1)])]"

definition c7_source :: "path \<Rightarrow> node option" where
  "c7_source p = (if p = [''src'', ''v1''] then Some c7_folder
                  else if p = [''src'', ''v2''] then Some c7_keyed else None)"

definition c7_env :: env where
  "c7_env = \<lparr> srcLstat = c7_source, srcStat = c7_source,
              now = 999, fmtTime = (\<lambda>t. ''''), userHomeDir = None,
              removeDenied = (\<lambda>p. False), readFile = (\<lambda>f. None),
              regexpCompile = (\<lambda>r. None), glob = (\<lambda>d p. None),
              createMode = 420, emptyCommitRefused = True \<rparr>"

text \<open>
  A source directory \<^verbatim>\<open>/src\<close> with four version folders: \<^verbatim>\<open>v1.0\<close> holds
  \<^verbatim>\<open>a.txt\<close> (modified at 100), \<^verbatim>\<open>v1.0_fix\<close> holds \<^verbatim>\<open>c.txt\<close> (at 300),
  \<^verbatim>\<open>v1.2\<close> holds \<^verbatim>\<open>b.txt\<close> (at 200) and \<^verbatim>\<open>v1.3\<close> holds \<^verbatim>\<open>README\<close> and
  \<^verbatim>\<open>d.txt\<close> (at 400); beside them a folder \<^verbatim>\<open>v2.0\<close> with a file named
  \<^verbatim>\<open>link\<close> and a folder \<^verbatim>\<open>v2.1\<close> with a file and a symbolic link to that file,
  which the glob does not match. No folder has a symbolic link on the way to it. The
  extraction pattern finds the three bytes after the first one of a folder name. Two
  authors files can be read. The Git library refuses empty commits.
\<close>

definition demo_source :: "path \<Rightarrow> node option" where
  "demo_source p =
     (if p = [''src'', ''v1.0''] then Some (Dir True [(''a.txt'', File ''A'' 420 100)])
      else if p = [''src'', ''v1.0_fix''] then Some (Dir True [(''c.txt'', File ''C'' 420 300)])
      else if p = [''src'', ''v1.2''] then Some (Dir True [(''b.txt'', File ''B'' 420 200)])
      else if p = [''src'', ''v1.3'']
        then Some (Dir True [(''README'', File ''R2'' 420 400), (''d.txt'', File ''D'' 420 400)])
      else if p = [''src'', ''v2.0''] then Some (Dir True [(''link'', File ''L'' 420 500)])
      else if p = [''src'', ''v2.1'']
        then Some (Dir True [(''e.txt'', File ''E'' 493 600),
                             (''same.txt'', Symlink 600 False [Name ''e.txt''])])
      else None)"

definition demo_env :: env where
  "demo_env =
     \<lparr> srcLstat = demo_source,
       srcStat = (\<lambda>p. if p = [''src'', ''v2.1'', ''same.txt'']
                       then Some (File ''E'' 493 600) else demo_source p),
       now = 999,
       fmtTime = (\<lambda>t. if t = 100 then ''T100'' else if t = 200 then ''T200''
                      else if t = 300 then ''T300'' else ''T400''),
       userHomeDir = Some [''home'', ''u''],
       removeDenied = (\<lambda>p. False),
       readFile = (\<lambda>f. if f = ''authors.txt'' then Some ''1.0:Alice:alice@x.com''
                        else if f = ''partial.txt'' then Some ''1.0:Alice:''
                        else None),
       regexpCompile = (\<lambda>r. Some (\<lambda>name. take 3 (drop 1 name))),
       glob = (\<lambda>d p. Some [[''src'', ''v1.0''], [''src'', ''v1.0_fix''], [''src'', ''v1.2''],
                            [''src'', ''v1.3'']]),
       createMode = 420,
       emptyCommitRefused = True \<rparr>"

definition demo_cfg :: Config where
  "demo_cfg =
     \<lparr> SourceDir = [''src''], TargetDir = [''work'', ''repo''], Pattern = ''*'',
       ExtractPattern = ''[0-9]+[.][0-9]+'', DryRun = False, Author = ''Developer'',
       Email = ''dev@example.com'', Verbose = False, Append = False, AuthorsFile = [],
       MessageTemplate = [] \<rparr>"

definition v10 :: FolderInfo where
  "v10 = \<lparr> Path = [''src'', ''v1.0''], Version = ''1.0'', CreationTime = 100 \<rparr>"

definition v10_fix :: FolderInfo where
  "v10_fix = \<lparr> Path = [''src'', ''v1.0_fix''], Version = ''1.0'', CreationTime = 300 \<rparr>"

definition v12 :: FolderInfo where
  "v12 = \<lparr> Path = [''src'', ''v1.2''], Version = ''1.2'', CreationTime = 200 \<rparr>"

definition v13 :: FolderInfo where
  "v13 = \<lparr> Path = [''src'', ''v1.3''], Version = ''1.3'', CreationTime = 400 \<rparr>"

definition v20 :: FolderInfo where
  "v20 = \<lparr> Path = [''src'', ''v2.0''], Version = ''2.0'', CreationTime = 500 \<rparr>"


text \<open>
  The root directory with the given tree at \<^verbatim>\<open>/work/repo\<close>, and with the directory
  \<^verbatim>\<open>/home/u\<close>.
\<close>

definition rootWith :: "node \<Rightarrow> node" where
  "rootWith t =
     Dir True [(''home'', Dir True [(''u'', Dir True [])]), (''work'', Dir True [(''repo'', t)])]"

text \<open>No target directory yet: the root directory holds \<^verbatim>\<open>/home/u\<close> only.\<close>

definition fresh_world :: world where
  "fresh_world = \<lparr> disk = Dir True [(''home'', Dir True [(''u'', Dir True [])])], repo = None \<rparr>"

text \<open>
  A target directory with a repository of one commit, made by hand, and a
  \<^verbatim>\<open>README\<close> in the working tree.
\<close>

definition seeded_tree :: node where
  "seeded_tree = Dir True [(''.git'', Dir True []), (''README'', File ''R'' 420 50)]"

definition seeded_world :: world where
  "seeded_world =
     \<lparr> disk = rootWith seeded_tree,
       repo = Some \<lparr> refs = [(''HEAD'', SymbolicReference ''refs/heads/master''),
                             (''refs/heads/master'', HashReference 1)],
                     objects = [(1, CommitObject \<lparr> Message = ''Initial commit'',
                                    AuthorName = ''Developer'', AuthorEmail = ''dev@example.com'',
                                    AuthorWhen = 50, ParentHashes = [],
                                    Tree = [([''README''], FileBlob ''R'' False)] \<rparr>)],
                     staged = [([''README''], FileBlob ''R'' False)] \<rparr> \<rparr>"


text \<open>
  A working tree with a file and a symbolic link to that file, left by an earlier
  version.
\<close>

definition linked_tree :: node where
  "linked_tree =
     Dir True [(''.git'', Dir True []), (''old.txt'', File ''O'' 420 40),
               (''link'', Symlink 41 False [Name ''old.txt''])]"

text \<open>
  A target directory whose repository has one commit for version 1.0, made by other
  means, and whose working tree holds a \<^verbatim>\<open>README\<close> only.
\<close>

definition legacy_world :: world where
  "legacy_world =
     \<lparr> disk = rootWith seeded_tree,
       repo = Some \<lparr> refs = [(''HEAD'', SymbolicReference ''refs/heads/master''),
                             (''refs/heads/master'', HashReference 1)],
                     objects = [(1, CommitObject \<lparr> Message = ''Version 1.0: imported'',
                                    AuthorName = ''Developer'', AuthorEmail = ''dev@example.com'',
                                    AuthorWhen = 50, ParentHashes = [],
                                    Tree = [([''README''], FileBlob ''R'' False)] \<rparr>)],
                     staged = [([''README''], FileBlob ''R'' False)] \<rparr> \<rparr>"

text \<open>A repository whose branch has two commits, the older one for version 1.0.\<close>

definition two_commit_repo :: repository where
  "two_commit_repo =
     \<lparr> refs = [(''HEAD'', SymbolicReference ''refs/heads/master''),
               (''refs/heads/master'', HashReference 2)],
       objects = [(1, CommitObject \<lparr> Message = ''Version 1.0: v1.0 (created: T100)'',
                      AuthorName = ''Developer'', AuthorEmail = ''dev@example.com'',
                      AuthorWhen = 100, ParentHashes = [],
                      Tree = [([''a.txt''], FileBlob ''A'' False)] \<rparr>),
                  (2, CommitObject \<lparr> Message = ''Version 1.2: v1.2 (created: T200)'',
                      AuthorName = ''Developer'', AuthorEmail = ''dev@example.com'',
                      AuthorWhen = 200, ParentHashes = [1],
                      Tree = [([''a.txt''], FileBlob ''A'' False),
                              ([''b.txt''], FileBlob ''B'' False)] \<rparr>)],
       staged = [([''a.txt''], FileBlob ''A'' False), ([''b.txt''], FileBlob ''B'' False)] \<rparr>"

section \<open>Properties\<close>

subsection \<open>Strings\<close>

lemma Split_not_Nil: "Split s sep \<noteq> []"
  by (induction s) (auto split: list.splits)

lemma Split_first: "Split s sep ! 0 = takeWhile (\<lambda>c. c \<noteq> sep) s"
proof (induction s)
  case Nil
  show ?case by simp
next
  case (Cons c cs)
  then show ?case
    using Split_not_Nil [of cs sep] by (auto split: list.splits)
qed

lemma spaceWidth_blank: "spaceWidth spaceRunes (CHR 0x20 # s) = 1"
  by (simp add: spaceRunes_def HasPrefix_def)

lemma TrimSpace_blank: "TrimSpace (CHR 0x20 # s) = TrimSpace s"
  by (simp add: TrimSpace_def spaceWidth_blank)

text \<open>
  The step bounds of \<open>trimLeftRunes\<close>, \<open>replaceFrom\<close> and \<open>digits\<close> are never
  reached: with the bound that \<open>TrimSpace\<close>, \<open>ReplaceAll\<close> and \<open>Sprintf_d\<close> pass,
  the trimming ends where no white space is left, and a larger bound gives the same
  result.
\<close>

lemma spaceWidth_le: "spaceWidth rs s \<le> length s"
  by (induction rs) (auto simp: HasPrefix_def)

lemma trimLeftRunes_fuel: "length s \<le> n \<Longrightarrow> spaceWidth rs (trimLeftRunes rs n s) = 0"
proof (induction n arbitrary: s)
  case 0
  then show ?case using spaceWidth_le [of rs s] by simp
next
  case (Suc n)
  show ?case
  proof (cases "spaceWidth rs s = 0")
    case True
    then show ?thesis by simp
  next
    case False
    with Suc.prems have "length (drop (spaceWidth rs s) s) \<le> n" by simp
    with Suc.IH False show ?thesis by simp
  qed
qed

lemma replaceFrom_fuel:
  "length s \<le> n \<Longrightarrow> length s \<le> m \<Longrightarrow> replaceFrom n s old new = replaceFrom m s old new"
proof (induction n s old new arbitrary: m rule: replaceFrom.induct)
  case (1 s old new)
  then show ?case by (cases m) simp_all
next
  case (2 n old new)
  then show ?case by (cases m) simp_all
next
  case (3 n c cs old new)
  from "3.prems" obtain k where m: "m = Suc k" and k: "length cs \<le> k"
    by (cases m) auto
  show ?case
  proof (cases "old \<noteq> [] \<and> HasPrefix (c # cs) old")
    case True
    then have "length (drop (length old) (c # cs)) \<le> length cs"
      by (cases old) auto
    with "3.IH"(1) [OF True, of k] "3.prems" k True m show ?thesis by simp
  next
    case False
    with "3.IH"(2) [OF False, of k] "3.prems" k m show ?thesis by auto
  qed
qed

lemma digits_fuel: "n < k \<Longrightarrow> n < j \<Longrightarrow> digits k n = digits j n"
proof (induction k n arbitrary: j rule: digits.induct)
  case (1 n)
  then show ?case by simp
next
  case (2 k n)
  from "2.prems" obtain i where j: "j = Suc i" by (cases j) auto
  show ?case
  proof (cases "n < 10")
    case True
    with j show ?thesis by simp
  next
    case False
    with "2.prems" j have "n div 10 < k" and "n div 10 < i" by auto
    with "2.IH" [OF False, of i] False j show ?thesis by simp
  qed
qed

subsection \<open>The commit-message convention\<close>

lemma defaultMessage_Contains: "Contains (defaultMessage v folder date) ''Version''"
  by (simp add: defaultMessage_def HasPrefix_def)

lemma defaultMessage_first:
  assumes "CHR '':'' \<notin> set v"
  shows "Split (defaultMessage v folder date) CHR '':'' ! 0 = ''Version '' @ v"
proof -
  have "takeWhile (\<lambda>c. c \<noteq> CHR '':'') (v @ CHR '':'' # rest) = v" for rest
    using assms by (induction v) auto
  then show ?thesis
    unfolding Split_first defaultMessage_def by simp
qed

text \<open>
  C2 (as stated): the version read back from a default message is the version that was
  formatted in, for every version token. A token with a colon is cut at the colon.
\<close>

theorem C2_roundtrip_counterexample:
  "versionOfMessage (defaultMessage ''12:30'' ''snapshot_12:30'' ''2024-01-01 12:30:00'')
     \<noteq> Some ''12:30''"
  by (simp add: versionOfMessage_def defaultMessage_def HasPrefix_def TrimPrefix_def
      TrimSpace_def spaceRunes_def)

text \<open>
  C2 (amended): for a version token without a colon and without leading or trailing white
  space, the default message reads back as exactly that token, whatever the folder name
  and the date are.
\<close>

theorem C2_roundtrip:
  assumes "CHR '':'' \<notin> set v" and "TrimSpace v = v"
  shows "versionOfMessage (defaultMessage v folder date) = Some v"
proof -
  have "TrimPrefix (''Version '' @ v) ''Version'' = CHR 0x20 # v"
    by (simp add: TrimPrefix_def HasPrefix_def)
  then have "TrimSpace (TrimPrefix (''Version '' @ v) ''Version'') = v"
    using assms(2) by (simp add: TrimSpace_blank)
  then show ?thesis
    using assms(1) Split_not_Nil [of "defaultMessage v folder date" "CHR '':''"]
    by (simp add: versionOfMessage_def defaultMessage_Contains defaultMessage_first)
qed

theorem C2_roundtrip_witness:
  "CHR '':'' \<notin> set ''1.0'' \<and> TrimSpace ''1.0'' = ''1.0'' \<and>
   versionOfMessage (defaultMessage ''1.0'' ''project_v1.0'' ''2024-01-01 12:30:00'') = Some ''1.0''"
proof -
  have a: "CHR '':'' \<notin> set ''1.0''" by simp
  have b: "TrimSpace ''1.0'' = ''1.0''"
    by (simp add: TrimSpace_def spaceRunes_def HasPrefix_def)
  show ?thesis
    using a b C2_roundtrip [OF a b, of "''project_v1.0''" "''2024-01-01 12:30:00''"] by simp
qed

subsection \<open>Timestamp inference\<close>

lemma weigh_append: "weigh (a @ b) = weigh a @ weigh b"
  by (simp add: weigh_def)

lemma take_budget: "(m::nat) - (k + min a (m - k)) = m - (k + a)"
  by arith

lemma timeVisit_file:
  "\<not> isDir n \<Longrightarrow>
   timeGoal (visible (Base (root @ rel)) n) st
     (timeVisit root rel (Some n) None st) \<and>
   (fst (timeVisit root rel (Some n) None st) = SkipDir \<longrightarrow> maxFiles \<le> snd st)"
  by (cases n) (auto simp: timeVisit_def timeGoal_def Let_def weigh_def countedFile_def)

lemma walk_time:
  "fn = timeVisit root \<Longrightarrow>
     timeGoal (visible (Base (root @ rel)) n) st (walk fn rel n st) \<and>
     (fst (walk fn rel n st) = SkipDir \<longrightarrow> \<not> isDir n \<longrightarrow> maxFiles \<le> snd st)"
  "fn = timeVisit root \<Longrightarrow>
     timeGoal (visibleEntries es) st (walkNames fn rel es st) \<and>
     (fst (walkNames fn rel es st) = SkipDir \<longrightarrow> maxFiles \<le> snd (snd (walkNames fn rel es st)))"
proof (induction fn rel n st and fn rel es st rule: walk_walkNames.induct)
  case (1 fn p c m t st)
  then show ?case using timeVisit_file [of "File c m t" root p st] by simp
next
  case (2 fn p t a tg st)
  then show ?case using timeVisit_file [of "Symlink t a tg" root p st] by simp
next
  case (3 fn p r es st)
  note eq = \<open>fn = timeVisit root\<close>
  let ?go = "r \<and> \<not> skippedDirName (Base (root @ p))"
  have v: "fn p (Some (Dir r es)) (if r then None else Some EACCES) st =
            (if ?go then Continue else if r then SkipDir else Continue, st)"
    using eq by (simp add: timeVisit_def)
  show ?case
  proof (cases ?go)
    case True
    have "timeGoal (visibleEntries es) st (walkNames fn p es st)"
      using "3.IH" [OF refl refl _ eq] v True by simp
    with True v show ?thesis by simp
  next
    case False
    with v show ?thesis by (auto simp: timeGoal_def weigh_def)
  qed
next
  case (4 fn p st)
  then show ?case by (simp add: timeGoal_def weigh_def)
next
  case (5 fn p e es st)
  let ?res = "walk fn (p @ [fst e]) (snd e) st"
  let ?V = "visible (fst e) (snd e)"
  from 5 have h1: "timeGoal ?V st ?res"
    and h1s: "fst ?res = SkipDir \<Longrightarrow> \<not> isDir (snd e) \<Longrightarrow> maxFiles \<le> snd st"
    by (simp_all add: Base_def)
  have st1: "snd ?res = (fst st @ weigh (take (maxFiles - snd st) ?V),
                 snd st + length (take (maxFiles - snd st) ?V))"
    and na: "\<And>x. fst ?res \<noteq> Abort x"
    using h1 by (simp_all add: timeGoal_def)
  show ?case
  proof (cases "fst ?res")
    case Continue
    with 5 have h2: "timeGoal (visibleEntries es) (snd ?res) (walkNames fn p es (snd ?res))"
      and h2s: "fst (walkNames fn p es (snd ?res)) = SkipDir \<Longrightarrow>
                maxFiles \<le> snd (snd (walkNames fn p es (snd ?res)))"
      by simp_all
    from Continue h2 h2s st1 show ?thesis
      by (simp add: timeGoal_def Let_def weigh_append take_budget)
  next
    case SkipDir
    show ?thesis
    proof (cases "isDir (snd e)")
      case True
      with SkipDir 5 have h2: "timeGoal (visibleEntries es) (snd ?res) (walkNames fn p es (snd ?res))"
      and h2s: "fst (walkNames fn p es (snd ?res)) = SkipDir \<Longrightarrow>
                maxFiles \<le> snd (snd (walkNames fn p es (snd ?res)))"
        by simp_all
      from SkipDir True h2 h2s st1 show ?thesis
        by (simp add: timeGoal_def Let_def weigh_append take_budget)
    next
      case False
      with SkipDir h1s have "maxFiles \<le> snd st" by simp
      with SkipDir False st1 na show ?thesis
        by (simp add: timeGoal_def Let_def weigh_def)
    qed
  next
    case (Abort x)
    with na [of x] show ?thesis by simp
  qed
qed

lemma Walk_time:
  "snd (Walk (timeVisit p) (Some root) ([], 0)) =
     (sampleTimes (Base p) root, length (take maxFiles (visible (Base p) root)))"
  "fst (Walk (timeVisit p) (Some root) ([], 0)) = Continue"
proof -
  let ?res = "walk (timeVisit p) [] root ([], 0)"
  have g: "timeGoal (visible (Base p) root) ([], 0) ?res"
    using walk_time(1) [of "timeVisit p" p "[]" root "([], 0)"] by simp
  show "snd (Walk (timeVisit p) (Some root) ([], 0)) =
     (sampleTimes (Base p) root, length (take maxFiles (visible (Base p) root)))"
    using g by (simp add: Walk_def timeGoal_def sampleTimes_def Let_def)
  show "fst (Walk (timeVisit p) (Some root) ([], 0)) = Continue"
    using g by (cases "fst ?res") (simp_all add: Walk_def timeGoal_def Let_def)
qed

text \<open>
  C7 (as stated): on any walk error the inferred time is the current time. A directory
  that cannot be listed is a walk error, and the function still returns the median of
  what it collected elsewhere.
\<close>

theorem C7_walk_error_counterexample:
  "getFolderCreationTime c7_env [''src'', ''v1''] = 100 \<and> now c7_env = 999"
  by code_simp

text \<open>
  C7 (amended): the function is total. When the folder cannot be examined or no time was
  collected, the result is the current time; a directory below the folder that cannot be
  listed is passed over. Otherwise the result is the element in the middle (index
  \<open>n div 2\<close> of the \<open>n\<close> sorted values) of the sample, which holds the modification time
  of every processed file, twice for a key file; at most 500 files are processed.
\<close>

theorem C7_creation_time:
  "getFolderCreationTime e p =
     (case srcLstat e p of
        None \<Rightarrow> now e
      | Some root \<Rightarrow>
          (if sampleTimes (Base p) root = [] then now e
           else upperMedian (sampleTimes (Base p) root)))
   \<and> snd (snd (Walk (timeVisit p) (srcLstat e p) ([], 0))) \<le> maxFiles"
proof (cases "srcLstat e p")
  case None
  then show ?thesis
    by (simp add: getFolderCreationTime_def Walk_def timeVisit_def)
next
  case (Some root)
  then show ?thesis
    using Walk_time [of p root]
    by (simp add: getFolderCreationTime_def upperMedian_def Let_def)
qed

theorem C7_creation_time_witness:
  "srcLstat c7_env [''src'', ''v2''] = Some c7_keyed \<and>
   sampleTimes ''v2'' c7_keyed = [300, 300, 100] \<and>
   getFolderCreationTime c7_env [''src'', ''v2''] = 300"
proof -
  have a: "srcLstat c7_env [''src'', ''v2''] = Some c7_keyed"
    by (simp add: c7_env_def c7_source_def)
  have b: "sampleTimes ''v2'' c7_keyed = [300, 300, 100]"
    by code_simp
  have c: "upperMedian [300, 300, 100] = 300"
    by code_simp
  show ?thesis
    using C7_creation_time [of c7_env "[''src'', ''v2'']"] a b c
    by (simp add: Base_def)
qed

subsection \<open>Version discovery\<close>

lemma discovered_sorted:
  "sorted (map CreationTime (sort_key CreationTime fs))"
  by (rule sorted_sort_key)

lemma sort_key_Nil_iff: "sort_key f xs = [] \<longleftrightarrow> xs = []"
  using length_sort [of f xs] by (cases xs) auto

text \<open>
  C9: when discovery succeeds, the folders it returns are in non-decreasing order of
  creation time (every element is at most the next one) and there is at least one; it
  fails exactly when no folder was found, which includes the two cases in which the
  search does not start (an expression that does not compile, a malformed glob).
\<close>

theorem C9_discovery:
  "(case FindVersionedFolders e config of
      Inr fs \<Rightarrow> sorted (map CreationTime fs) \<and> fs \<noteq> [] \<and> discovered e config \<noteq> [] \<and>
                 set fs = set (discovered e config)
    | Inl err \<Rightarrow> discovered e config = [])"
proof (cases "regexpCompile e (ExtractPattern config)")
  case None
  then show ?thesis by (simp add: FindVersionedFolders_def discovered_def)
next
  case re: (Some re)
  show ?thesis
  proof (cases "glob e (SourceDir config) (Pattern config)")
    case None
    with re show ?thesis by (simp add: FindVersionedFolders_def discovered_def)
  next
    case (Some matches)
    with re show ?thesis
      by (auto simp: FindVersionedFolders_def discovered_def Let_def discovered_sorted
          sort_key_Nil_iff)
  qed
qed

theorem C9_discovery_witness:
  "FindVersionedFolders demo_env demo_cfg = Inr [v10, v12, v10_fix, v13] \<and>
   sorted (map CreationTime [v10, v12, v10_fix, v13]) \<and>
   discovered demo_env demo_cfg \<noteq> []"
proof -
  have r: "FindVersionedFolders demo_env demo_cfg = Inr [v10, v12, v10_fix, v13]"
    by code_simp
  show ?thesis
    using C9_discovery [of demo_env demo_cfg] r by simp
qed

subsection \<open>Paths, links and writes\<close>

lemma lookup_append:
  "lookup t (p @ q) = (case lookup t p of None \<Rightarrow> None | Some n \<Rightarrow> lookup n q)"
  by (induction t p rule: lookup.induct) (auto split: option.splits)

lemma map_of_setEntry: "map_of (setEntry x n es) = (map_of es)(x \<mapsto> n)"
  by (induction es) (auto simp: fun_eq_iff)

lemma setEntry_same: "map_of es x = Some c \<Longrightarrow> setEntry x c es = es"
  by (induction es) (auto split: if_splits)

lemma keptAs_self: "keptAs n (Some n)"
  by (simp add: keptAs_def)

lemma keeps_refl: "keeps t t"
  by (simp add: keeps_def keptAs_self)

lemma keeps_trans:
  assumes "keeps a b" and "keeps b c"
  shows "keeps a c"
proof -
  have "keptAs n (lookup c p)" if "lookup a p = Some n" for p n
  proof -
    from assms(1) that obtain n1 where n1: "lookup b p = Some n1"
      and k1: "if isDir n then isDir n1 else n1 = n"
      by (auto simp: keeps_def keptAs_def split: option.splits)
    from assms(2) n1 obtain n2 where n2: "lookup c p = Some n2"
      and k2: "if isDir n1 then isDir n2 else n2 = n1"
      by (auto simp: keeps_def keptAs_def split: option.splits)
    from k1 k2 n2 show ?thesis
      by (auto simp: keptAs_def split: if_splits)
  qed
  then show ?thesis by (simp add: keeps_def)
qed

lemma keeps_dir:
  assumes "keeps t t'" and "lookup t q = Some (Dir r es)"
  shows "\<exists>r' es'. lookup t' q = Some (Dir r' es')"
proof -
  from assms have "keptAs (Dir r es) (lookup t' q)" unfolding keeps_def by blast
  then obtain n where n: "lookup t' q = Some n" and "isDir n"
    by (auto simp: keptAs_def split: option.splits)
  then show ?thesis by (cases n) auto
qed

text \<open>Replacing an entry of a directory by something that keeps what the entry held.\<close>

lemma keeps_setEntry:
  assumes "\<And>c. map_of es x = Some c \<Longrightarrow> keeps c c'"
  shows "keeps (Dir r es) (Dir r (setEntry x c' es))"
proof -
  have "keptAs n (lookup (Dir r (setEntry x c' es)) p)" if "lookup (Dir r es) p = Some n" for p n
  proof (cases p)
    case Nil
    with that show ?thesis by (auto simp: keptAs_def)
  next
    case (Cons y ys)
    show ?thesis
    proof (cases "y = x")
      case True
      with that Cons obtain c where c: "map_of es x = Some c" and l: "lookup c ys = Some n"
        by (auto split: option.splits)
      from assms [OF c] l have "keptAs n (lookup c' ys)" by (simp add: keeps_def)
      with True Cons show ?thesis by (simp add: map_of_setEntry)
    next
      case False
      with that Cons show ?thesis
        by (auto simp: map_of_setEntry keptAs_self split: option.splits)
    qed
  qed
  then show ?thesis by (simp add: keeps_def)
qed

text \<open>Putting something where nothing was keeps everything.\<close>

lemma putAt_new_keeps: "lookup t q = None \<Longrightarrow> keeps t (putAt t q v)"
proof (induction t q v rule: putAt.induct)
  case (1 n v)
  then show ?case by simp
next
  case (2 r es x v)
  then have "map_of es x = None" by (simp split: option.splits)
  then show ?case unfolding putAt.simps by (intro keeps_setEntry) simp
next
  case (3 r es x y ys v)
  show ?case
  proof (cases "map_of es x")
    case None
    then show ?thesis by (simp add: keeps_refl)
  next
    case (Some c)
    with "3.prems" have "lookup c (y # ys) = None" by simp
    with "3.IH" [OF Some] have "keeps c (putAt c (y # ys) v)" .
    with Some have "keeps (Dir r es) (Dir r (setEntry x (putAt c (y # ys) v) es))"
      by (intro keeps_setEntry) simp
    with Some show ?thesis by simp
  qed
next
  case (4 c m t x xs v)
  then show ?case by (simp add: keeps_refl)
next
  case (5 t a tg x xs v)
  then show ?case by (simp add: keeps_refl)
qed

lemma putAt_cases: "lookup (putAt t q v) q = Some v \<or> putAt t q v = t"
proof (induction t q v rule: putAt.induct)
  case (3 r es x y ys v)
  show ?case
  proof (cases "map_of es x")
    case None
    then show ?thesis by simp
  next
    case (Some c)
    with "3.IH" [OF Some] show ?thesis
      by (auto simp: map_of_setEntry setEntry_same)
  qed
qed (simp_all add: map_of_setEntry)

text \<open>What is below a path at which something was put.\<close>

lemma putAt_below:
  "lookup t q \<noteq> None \<or> (q \<noteq> [] \<and> (\<exists>r es. lookup t (butlast q) = Some (Dir r es))) \<Longrightarrow>
   lookup (putAt t q v) (q @ p) = lookup v p"
proof (induction t q v rule: putAt.induct)
  case (1 n v)
  show ?case by simp
next
  case (2 r es x v)
  show ?case by (simp add: map_of_setEntry)
next
  case (3 r es x y ys v)
  from "3.prems" obtain c where c: "map_of es x = Some c"
    by (auto split: option.splits)
  with "3.prems"
  have "lookup c (y # ys) \<noteq> None \<or>
        (y # ys \<noteq> [] \<and> (\<exists>r es. lookup c (butlast (y # ys)) = Some (Dir r es)))"
    by (auto split: if_splits)
  with "3.IH" [OF c] have "lookup (putAt c (y # ys) v) ((y # ys) @ p) = lookup v p" .
  with c show ?case by (simp add: map_of_setEntry)
next
  case (4 c m t x xs v)
  then show ?case by (cases xs) auto
next
  case (5 t a tg x xs v)
  then show ?case by (cases xs) auto
qed

lemma putAt_at:
  "lookup t q \<noteq> None \<or> (q \<noteq> [] \<and> (\<exists>r es. lookup t (butlast q) = Some (Dir r es))) \<Longrightarrow>
   lookup (putAt t q v) q = Some v"
  using putAt_below [of t q v "[]"] by simp


subsection \<open>What a write adds\<close>

lemma onlyNew_refl: "onlyNew S t t"
  by (simp add: onlyNew_def)


lemma onlyNew_trans: "onlyNew S a b \<Longrightarrow> onlyNew S' b c \<Longrightarrow> onlyNew (S \<union> S') a c"
  unfolding onlyNew_def by blast

lemma onlyNew_setEntry:
  assumes "\<And>ys x. lookup c' ys = Some x \<Longrightarrow> \<not> isDir x \<Longrightarrow>
             (\<exists>c. map_of es k = Some c \<and> lookup c ys = Some x) \<or> ys \<in> S"
  shows "onlyNew ((#) k ` S) (Dir r es) (Dir r (setEntry k c' es))"
proof -
  have "lookup (Dir r es) p = Some x \<or> p \<in> (#) k ` S"
    if l: "lookup (Dir r (setEntry k c' es)) p = Some x" and nd: "\<not> isDir x" for p x
  proof (cases p)
    case Nil
    with l nd show ?thesis by auto
  next
    case (Cons y ys)
    show ?thesis
    proof (cases "y = k")
      case True
      with l Cons have "lookup c' ys = Some x" by (simp add: map_of_setEntry)
      from assms [OF this nd] True Cons show ?thesis by auto
    next
      case False
      with l Cons show ?thesis by (simp add: map_of_setEntry)
    qed
  qed
  then show ?thesis by (simp add: onlyNew_def)
qed

text \<open>
  Putting \<open>v\<close> at a path: what is not a directory afterwards was there before, or is
  in \<open>v\<close>.
\<close>

lemma putAt_onlyNew:
  "(\<forall>p x. lookup v p = Some x \<longrightarrow> \<not> isDir x \<longrightarrow> p \<in> V) \<Longrightarrow>
   onlyNew ((@) q ` V) t (putAt t q v)"
proof (induction t q v rule: putAt.induct)
  case (1 n v)
  have "(@) [] ` V = V" by auto
  with 1 show ?case by (simp add: onlyNew_def)
next
  case (2 r es x v)
  have "onlyNew ((#) x ` V) (Dir r es) (Dir r (setEntry x v es))"
    using 2 by (intro onlyNew_setEntry) simp
  moreover have "(@) [x] ` V = (#) x ` V" by auto
  ultimately show ?case by simp
next
  case (3 r es x y ys v)
  show ?case
  proof (cases "map_of es x")
    case None
    then show ?thesis by (simp add: onlyNew_refl)
  next
    case (Some c)
    from "3.IH" [OF Some "3.prems"]
    have o: "onlyNew ((@) (y # ys) ` V) c (putAt c (y # ys) v)" .
    have "onlyNew ((#) x ` (@) (y # ys) ` V) (Dir r es)
            (Dir r (setEntry x (putAt c (y # ys) v) es))"
    proof (rule onlyNew_setEntry)
      fix zs z
      assume "lookup (putAt c (y # ys) v) zs = Some z" and "\<not> isDir z"
      with o have "lookup c zs = Some z \<or> zs \<in> (@) (y # ys) ` V"
        by (simp add: onlyNew_def)
      with Some show "(\<exists>c. map_of es x = Some c \<and> lookup c zs = Some z) \<or>
                      zs \<in> (@) (y # ys) ` V"
        by auto
    qed
    moreover have "(#) x ` (@) (y # ys) ` V = (@) (x # y # ys) ` V" by auto
    ultimately show ?thesis using Some by simp
  qed
next
  case (4 c m t x xs v)
  show ?case by (simp add: onlyNew_refl)
next
  case (5 t a tg x xs v)
  show ?case by (simp add: onlyNew_refl)
qed

subsection \<open>Path resolution\<close>

text \<open>A path that resolves as missing has nothing at it, in a directory.\<close>

lemma resolveAt_Missing:
  "resolveAt k t cur cs = Missing q \<Longrightarrow> lookup t q = None \<and> q \<noteq> []"
  by (induction k t cur cs rule: resolveAt.induct)
     (auto split: option.splits node.splits if_splits nat.splits)

lemma lookup_butlast_dir:
  "lookup t p = Some n \<Longrightarrow> p \<noteq> [] \<Longrightarrow> \<exists>r es. lookup t (butlast p) = Some (Dir r es)"
proof (induction t p rule: lookup.induct)
  case (2 r es x xs)
  then show ?case by (cases xs) (auto split: option.splits)
qed simp_all

lemma lookup_root_dir: "lookup t p = Some n \<Longrightarrow> p \<noteq> [] \<Longrightarrow> \<exists>r es. t = Dir r es"
  by (cases t; cases p) auto

lemma resolveAt_Missing_parent:
  "resolveAt k t cur cs = Missing q \<Longrightarrow> \<exists>r es. lookup t cur = Some (Dir r es) \<Longrightarrow>
   \<exists>r es. lookup t (butlast q) = Some (Dir r es)"
proof (induction k t cur cs rule: resolveAt.induct)
  case (1 k fs cur)
  then show ?case by simp
next
  case (2 k fs cur cs)
  from "2.prems"(2) have "\<exists>r es. lookup fs (butlast cur) = Some (Dir r es)"
    by (cases "cur = []") (auto dest: lookup_butlast_dir)
  with 2 show ?case by simp
next
  case (3 k fs cur c cs)
  from "3.prems"(2) have root: "\<exists>r es. lookup fs [] = Some (Dir r es)"
    by (cases "cur = []") (auto dest: lookup_root_dir)
  show ?case
  proof (cases "lookup fs (cur @ [c])")
    case None
    with "3.prems" show ?thesis by (auto split: if_splits)
  next
    case (Some n)
    show ?thesis
    proof (cases n)
      case (File d m mt)
      with Some "3.prems"(1) show ?thesis by (auto split: if_splits)
    next
      case (Dir r es)
      with Some "3.prems"(1) "3.IH"(2) [OF Some Dir] show ?thesis by simp
    next
      case (Symlink mt a tg)
      show ?thesis
      proof (cases k)
        case 0
        with Some Symlink "3.prems"(1) show ?thesis by simp
      next
        case (Suc k')
        with Some Symlink "3.prems" root "3.IH"(1) [OF Some Symlink Suc] show ?thesis
          by (cases a) simp_all
      qed
    qed
  qed
qed

text \<open>
  What a path resolves to stays what it resolves to when the file system keeps
  everything.
\<close>

lemma resolveAt_keeps:
  "keeps t t' \<Longrightarrow> resolveAt k t cur cs = Found q \<Longrightarrow> resolveAt k t' cur cs = Found q"
proof (induction k t cur cs rule: resolveAt.induct)
  case (1 k fs cur)
  then show ?case by simp
next
  case (2 k fs cur cs)
  then show ?case by simp
next
  case (3 k fs cur c cs)
  show ?case
  proof (cases "lookup fs (cur @ [c])")
    case None
    with "3.prems"(2) show ?thesis by (auto split: if_splits)
  next
    case (Some n)
    with "3.prems"(1) have k: "keptAs n (lookup t' (cur @ [c]))" by (simp add: keeps_def)
    show ?thesis
    proof (cases n)
      case (File d m mt)
      with k have "lookup t' (cur @ [c]) = Some (File d m mt)"
        by (auto simp: keptAs_def split: option.splits)
      with Some File "3.prems"(2) show ?thesis by (auto split: if_splits)
    next
      case (Dir r es)
      with k obtain r' es' where "lookup t' (cur @ [c]) = Some (Dir r' es')"
        by (auto simp: keptAs_def split: option.splits elim: isDir.elims)
      with Some Dir "3.prems" "3.IH"(2) [OF Some Dir] show ?thesis by simp
    next
      case (Symlink mt a tg)
      with k have l: "lookup t' (cur @ [c]) = Some (Symlink mt a tg)"
        by (auto simp: keptAs_def split: option.splits)
      show ?thesis
      proof (cases k)
        case 0
        with Some Symlink "3.prems"(2) show ?thesis by simp
      next
        case (Suc k')
        with Some Symlink l "3.prems" "3.IH"(1) [OF Some Symlink Suc] show ?thesis by simp
      qed
    qed
  qed
qed

lemma stat_keeps:
  assumes "keeps t t'" and "stat t p = Some n"
  shows "keptAs n (stat t' p)"
proof -
  from assms(2) obtain q where q: "resolve t p = Found q" and l: "lookup t q = Some n"
    by (auto simp: stat_def split: resolved.splits)
  from q assms(1) have "resolve t' p = Found q"
    by (simp add: resolve_def resolveAt_keeps)
  moreover from assms(1) l have "keptAs n (lookup t' q)" by (simp add: keeps_def)
  ultimately show ?thesis by (simp add: stat_def)
qed

text \<open>Resolving a path in two parts, when the first part leads to a directory.\<close>

lemma resolveAt_append:
  "resolveAt k t cur a = Found q \<Longrightarrow> \<exists>r es. lookup t q = Some (Dir r es) \<Longrightarrow>
   \<exists>k'. \<forall>b. resolveAt k t cur (a @ b) = resolveAt k' t q b"
proof (induction k t cur a rule: resolveAt.induct)
  case (1 k fs cur)
  then show ?case by auto
next
  case (2 k fs cur cs)
  then show ?case by simp
next
  case (3 k fs cur c cs)
  show ?case
  proof (cases "lookup fs (cur @ [c])")
    case None
    with "3.prems"(1) show ?thesis by (auto split: if_splits)
  next
    case (Some n)
    show ?thesis
    proof (cases n)
      case (File d m mt)
      with Some "3.prems" show ?thesis by (auto split: if_splits)
    next
      case (Dir r es)
      with Some "3.prems" "3.IH"(2) [OF Some Dir] show ?thesis by simp
    next
      case (Symlink mt a tg)
      show ?thesis
      proof (cases k)
        case 0
        with Some Symlink "3.prems"(1) show ?thesis by simp
      next
        case (Suc k')
        with Some Symlink "3.prems" "3.IH"(1) [OF Some Symlink Suc] show ?thesis by simp
      qed
    qed
  qed
qed

subsection \<open>Making directories\<close>

lemma mkdir_Inr:
  assumes "mkdir t p = Inr t'"
  shows "\<exists>q r es. p \<noteq> [] \<and> resolve t (butlast p) = Found q \<and> lookup t q = Some (Dir r es) \<and>
                   map_of es (last p) = None \<and> t' = putAt t (q @ [last p]) (Dir True [])"
  using assms
  by (auto simp: mkdir_def split: if_splits resolved.splits option.splits node.splits)

lemma mkdir_keeps: "mkdir t p = Inr t' \<Longrightarrow> keeps t t'"
proof -
  assume "mkdir t p = Inr t'"
  from mkdir_Inr [OF this] obtain q r es where q: "lookup t q = Some (Dir r es)"
    and n: "map_of es (last p) = None" and t': "t' = putAt t (q @ [last p]) (Dir True [])"
    by blast
  from q n have "lookup t (q @ [last p]) = None" by (simp add: lookup_append)
  then show ?thesis unfolding t' by (rule putAt_new_keeps)
qed

lemma mkdir_onlyNew: "mkdir t p = Inr t' \<Longrightarrow> onlyNew {} t t'"
proof -
  assume "mkdir t p = Inr t'"
  from mkdir_Inr [OF this] obtain q where t': "t' = putAt t (q @ [last p]) (Dir True [])"
    by blast
  have "\<forall>p x. lookup (Dir True []) p = Some x \<longrightarrow> \<not> isDir x \<longrightarrow> p \<in> {}"
  proof (intro allI impI)
    fix p x assume "lookup (Dir True []) p = Some x" and "\<not> isDir x"
    then show "p \<in> {}" by (cases p) auto
  qed
  from putAt_onlyNew [OF this, of "q @ [last p]" t] show ?thesis unfolding t' by simp
qed

text \<open>
  What holds of every single \<^verbatim>\<open>os.Mkdir\<close>, and is passed on from step to step, holds
  of \<^verbatim>\<open>os.MkdirAll\<close>.
\<close>

lemma mkdirAll_rel:
  assumes refl: "\<And>a. R a a" and trans: "\<And>a b c. R a b \<Longrightarrow> R b c \<Longrightarrow> R a c"
    and step: "\<And>a p b. mkdir a p = Inr b \<Longrightarrow> R a b"
  shows "R t (snd (mkdirAll t p))"
proof (induction t p rule: mkdirAll.induct)
  case (1 fs p)
  show ?case
  proof (cases "stat fs p")
    case (Some n)
    then show ?thesis by (subst mkdirAll.simps) (simp add: refl)
  next
    case None
    let ?up = "if butlast p = [] then (None, fs) else mkdirAll fs (butlast p)"
    have k1: "R fs (snd ?up)"
      using "1.IH" [OF None] by (simp add: refl)
    have eq: "mkdirAll fs p =
                (if fst ?up \<noteq> None then ?up
                 else (case mkdir (snd ?up) p of
                         Inr fs' \<Rightarrow> (None, fs')
                       | Inl x \<Rightarrow> (case lstat (snd ?up) p of
                                    Some (Dir r es) \<Rightarrow> (None, snd ?up)
                                  | _ \<Rightarrow> (Some x, snd ?up))))"
      by (subst mkdirAll.simps) (simp add: None Let_def)
    show ?thesis
    proof (cases "fst ?up \<noteq> None")
      case True
      with eq k1 show ?thesis by simp
    next
      case False
      show ?thesis
      proof (cases "mkdir (snd ?up) p")
        case (Inl x)
        with eq False k1 show ?thesis
          by (auto split: option.splits node.splits)
      next
        case (Inr fs')
        from step [OF Inr] k1 have "R fs fs'" by (rule trans [rotated])
        with eq False Inr show ?thesis by simp
      qed
    qed
  qed
qed

lemma mkdirAll_keeps: "keeps t (snd (mkdirAll t p))"
  by (rule mkdirAll_rel) (auto intro: keeps_refl keeps_trans mkdir_keeps)

lemma mkdirAll_onlyNew: "onlyNew {} t (snd (mkdirAll t p))"
proof (rule mkdirAll_rel)
  show "onlyNew {} a a" for a by (rule onlyNew_refl)
  show "onlyNew {} a c" if "onlyNew {} a b" and "onlyNew {} b c" for a b c
    using onlyNew_trans [OF that] by simp
  show "onlyNew {} a b" if "mkdir a p = Inr b" for a p b
    using that by (rule mkdir_onlyNew)
qed

lemma noNewLinks_refl: "noNewLinks t t"
  by (simp add: noNewLinks_def)

lemma noNewLinks_trans: "noNewLinks a b \<Longrightarrow> noNewLinks b c \<Longrightarrow> noNewLinks a c"
  unfolding noNewLinks_def by blast

text \<open>Where everything is kept and nothing but directories is added, no link is added.\<close>

lemma noNewLinks_kept:
  assumes "keeps t t'" and "onlyNew {} t t'"
  shows "noNewLinks t t'"
proof -
  have "lookup t [] = Some t" by simp
  with assms(1) have "keptAs t (lookup t' [])" unfolding keeps_def by blast
  then have "isDir t \<longrightarrow> isDir t'" by (simp add: keptAs_def)
  moreover have "lookup t p = Some (Symlink mt a tg)"
    if "lookup t' p = Some (Symlink mt a tg)" for p mt a tg
  proof -
    have "\<not> isDir (Symlink mt a tg)" by simp
    with assms(2) that show ?thesis unfolding onlyNew_def by blast
  qed
  ultimately show ?thesis by (simp add: noNewLinks_def)
qed

lemma mkdirAll_noNewLinks: "noNewLinks t (snd (mkdirAll t p))"
  by (rule noNewLinks_kept) (rule mkdirAll_keeps, rule mkdirAll_onlyNew)

subsection \<open>Writing a file\<close>

lemma copyFile_cases:
  "snd (copyFile e src info t dst) = t \<or>
   (\<exists>q c m. createPlace t dst = Inr q \<and>
             snd (copyFile e src info t dst) = putAt t q (File c m (now e)))"
  by (auto simp: copyFile_def split: option.splits sum.splits node.splits)

lemma createPlace_new:
  assumes "createPlace t dst = Inr q" and "stat t dst = None"
  shows "lookup t q = None"
  using assms resolveAt_Missing [of maxLinks t "[]" "map Name dst" q]
  by (auto simp: createPlace_def stat_def resolve_def
           split: resolved.splits option.splits node.splits)

lemma createPlace_place:
  assumes "createPlace t dst = Inr q" and "isDir t"
  shows "q \<noteq> [] \<and>
         (lookup t q \<noteq> None \<or> (\<exists>r es. lookup t (butlast q) = Some (Dir r es)))"
proof (cases "resolve t dst")
  case (Found q')
  with assms show ?thesis
    by (cases t; cases q') (auto simp: createPlace_def split: option.splits node.splits)
next
  case (Missing q')
  with assms(1) have q: "q' = q" by (simp add: createPlace_def)
  from assms(2) have "\<exists>r es. lookup t [] = Some (Dir r es)" by (cases t) auto
  with Missing q resolveAt_Missing [of maxLinks t "[]" "map Name dst" q]
    resolveAt_Missing_parent [of maxLinks t "[]" "map Name dst" q]
  show ?thesis by (simp add: resolve_def)
next
  case (Failed x)
  with assms(1) show ?thesis by (simp add: createPlace_def)
qed

lemma putAt_root: "isDir t \<Longrightarrow> q \<noteq> [] \<Longrightarrow> isDir (putAt t q v)"
  by (induction t q v rule: putAt.induct) (auto split: option.splits)

text \<open>In append mode: a file is written only where \<^verbatim>\<open>os.Stat\<close> found nothing.\<close>

lemma copyFile_keeps:
  assumes "stat t dst = None"
  shows "keeps t (snd (copyFile e src info t dst))"
proof -
  from copyFile_cases [of e src info t dst] show ?thesis
  proof
    assume "snd (copyFile e src info t dst) = t"
    then show ?thesis by (simp add: keeps_refl)
  next
    assume "\<exists>q c m. createPlace t dst = Inr q \<and>
              snd (copyFile e src info t dst) = putAt t q (File c m (now e))"
    then obtain q c m where q: "createPlace t dst = Inr q"
      and r: "snd (copyFile e src info t dst) = putAt t q (File c m (now e))" by blast
    from q assms have "lookup t q = None" by (rule createPlace_new)
    then show ?thesis unfolding r by (rule putAt_new_keeps)
  qed
qed

lemma copyFile_noNewLinks: "noNewLinks t (snd (copyFile e src info t dst))"
proof -
  from copyFile_cases [of e src info t dst] show ?thesis
  proof
    assume "snd (copyFile e src info t dst) = t"
    then show ?thesis by (simp add: noNewLinks_refl)
  next
    assume "\<exists>q c m. createPlace t dst = Inr q \<and>
              snd (copyFile e src info t dst) = putAt t q (File c m (now e))"
    then obtain q c m where q: "createPlace t dst = Inr q"
      and r: "snd (copyFile e src info t dst) = putAt t q (File c m (now e))" by blast
    let ?f = "File c m (now e)"
    have root: "isDir (putAt t q ?f)" if "isDir t"
      using createPlace_place [OF q that] that by (simp add: putAt_root)
    have "\<forall>p x. lookup ?f p = Some x \<longrightarrow> \<not> isDir x \<longrightarrow> p \<in> {[]}"
    proof (intro allI impI)
      fix p x assume "lookup ?f p = Some x"
      then show "p \<in> {[]}" by (cases p) auto
    qed
    from putAt_onlyNew [OF this, of q t] have o: "onlyNew {q} t (putAt t q ?f)" by simp
    have "lookup t p = Some (Symlink mt a tg)"
      if l: "lookup (putAt t q ?f) p = Some (Symlink mt a tg)" for p mt a tg
    proof (cases "p = q")
      case False
      have "\<not> isDir (Symlink mt a tg)" by simp
      with o l have "lookup t p = Some (Symlink mt a tg) \<or> p \<in> {q}"
        unfolding onlyNew_def by blast
      with False show ?thesis by simp
    next
      case True
      from putAt_cases [of t q ?f] show ?thesis
      proof
        assume "lookup (putAt t q ?f) q = Some ?f"
        with l True show ?thesis by simp
      next
        assume "putAt t q ?f = t"
        with l show ?thesis by simp
      qed
    qed
    with root show ?thesis unfolding r by (simp add: noNewLinks_def)
  qed
qed

subsection \<open>The walk of the copy\<close>

text \<open>
  What holds of every call of the walk function, and is passed on from call to call,
  holds of the walk.
\<close>

lemma walk_rel:
  assumes rf: "\<And>a. R a a" and tr: "\<And>a b c. R a b \<Longrightarrow> R b c \<Longrightarrow> R a c"
  shows "(\<forall>rel info err st. R (fst st) (fst (snd (fn rel info err st)))) \<Longrightarrow>
           R (fst st) (fst (snd (walk fn rel n st)))"
    and "(\<forall>rel info err st. R (fst st) (fst (snd (fn rel info err st)))) \<Longrightarrow>
           R (fst st) (fst (snd (walkNames fn rel es st)))"
proof (induction fn rel n st and fn rel es st rule: walk_walkNames.induct)
  case (1 fn p c m t st)
  then show ?case unfolding walk.simps by blast
next
  case (2 fn p t a tg st)
  then show ?case unfolding walk.simps by blast
next
  case (3 fn p r es st)
  note step = "3.prems"
  let ?res = "fn p (Some (Dir r es)) (if r then None else Some EACCES) st"
  have k1: "R (fst st) (fst (snd ?res))" using step by blast
  show ?case
  proof (cases "r \<and> fst ?res = Continue")
    case False
    with k1 show ?thesis by (auto simp: Let_def)
  next
    case True
    then have r: r by simp
    with True have c: "fst (fn p (Some (Dir r es)) None st) = Continue" by simp
    have "R (fst (snd ?res)) (fst (snd (walkNames fn p es (snd ?res))))"
      using "3.IH" [OF refl refl _ step] r c by simp
    with k1 have "R (fst st) (fst (snd (walkNames fn p es (snd ?res))))" by (rule tr)
    with r c show ?thesis by (simp add: Let_def)
  qed
next
  case (4 fn p st)
  then show ?case by (simp add: rf)
next
  case (5 fn p en es st)
  note step = "5.prems"
  let ?res = "walk fn (p @ [fst en]) (snd en) st"
  have k1: "R (fst st) (fst (snd ?res))"
    using "5.IH"(1) step by simp
  have k2c: "R (fst (snd ?res)) (fst (snd (walkNames fn p es (snd ?res))))"
    if "fst ?res = Continue"
    using that "5.IH"(2) step by simp
  have k2s: "R (fst (snd ?res)) (fst (snd (walkNames fn p es (snd ?res))))"
    if "fst ?res = SkipDir" and "isDir (snd en)"
    using that "5.IH"(3) step by simp
  show ?case
  proof (cases "fst ?res")
    case Continue
    with tr [OF k1 k2c] show ?thesis by (simp add: Let_def)
  next
    case SkipDir
    with k1 tr [OF k1 k2s] show ?thesis by (simp add: Let_def)
  next
    case (Abort x)
    with k1 show ?thesis by (simp add: Let_def)
  qed
qed

lemma copyVisit_cases:
  "fst (snd (copyVisit e src dst a rel info err st)) = fst st \<or>
   fst (snd (copyVisit e src dst a rel info err st)) = snd (mkdirAll (fst st) (dst @ butlast rel)) \<or>
   (\<exists>n. (a \<longrightarrow> stat (snd (mkdirAll (fst st) (dst @ butlast rel))) (dst @ rel) = None) \<and>
        fst (snd (copyVisit e src dst a rel info err st)) =
          snd (copyFile e (src @ rel) n (snd (mkdirAll (fst st) (dst @ butlast rel))) (dst @ rel)))"
  by (auto simp: copyVisit_def Let_def split: option.splits)

lemma copyVisit_append_keeps:
  "keeps (fst st) (fst (snd (copyVisit e src dst True rel info err st)))"
proof -
  let ?t1 = "snd (mkdirAll (fst st) (dst @ butlast rel))"
  have k1: "keeps (fst st) ?t1" by (rule mkdirAll_keeps)
  have "keeps (fst st) (snd (copyFile e (src @ rel) n ?t1 (dst @ rel)))"
    if "stat ?t1 (dst @ rel) = None" for n
    using k1 copyFile_keeps [OF that] by (rule keeps_trans)
  with k1 copyVisit_cases [of e src dst True rel info err st] show ?thesis
    by (auto simp: keeps_refl)
qed

lemma copyVisit_noNewLinks:
  "noNewLinks (fst st) (fst (snd (copyVisit e src dst a rel info err st)))"
proof -
  let ?t1 = "snd (mkdirAll (fst st) (dst @ butlast rel))"
  have k1: "noNewLinks (fst st) ?t1" by (rule mkdirAll_noNewLinks)
  have "noNewLinks (fst st) (snd (copyFile e (src @ rel) n ?t1 (dst @ rel)))" for n
    using k1 copyFile_noNewLinks by (rule noNewLinks_trans)
  with k1 copyVisit_cases [of e src dst a rel info err st] show ?thesis
    by (auto simp: noNewLinks_refl)
qed

lemma Walk_rel:
  assumes rf: "\<And>a. R a a" and tr: "\<And>a b c. R a b \<Longrightarrow> R b c \<Longrightarrow> R a c"
    and step: "\<forall>rel info err st. R (fst st) (fst (snd (fn rel info err st)))"
  shows "R (fst st) (fst (snd (Walk fn root st)))"
proof (cases root)
  case None
  from step have "R (fst st) (fst (snd (fn [] None (Some ENOENT) st)))" by blast
  with None show ?thesis by (simp add: Walk_def Let_def)
next
  case (Some n)
  with walk_rel(1) [of R fn st "[]" n, OF rf tr step] show ?thesis
    by (simp add: Walk_def Let_def)
qed

lemma copyFilesAndTrack_append_keeps:
  "keeps t (fst (fst (copyFilesAndTrack e src dst t True)))"
  using Walk_rel [of keeps "copyVisit e src dst True" "(t, 0, [])" "srcLstat e src",
      OF keeps_refl keeps_trans]
  by (simp add: copyFilesAndTrack_def Let_def copyVisit_append_keeps)

lemma copyFilesAndTrack_noNewLinks:
  "noNewLinks t (fst (fst (copyFilesAndTrack e src dst t a)))"
  using Walk_rel [of noNewLinks "copyVisit e src dst a" "(t, 0, [])" "srcLstat e src",
      OF noNewLinks_refl noNewLinks_trans]
  by (simp add: copyFilesAndTrack_def Let_def copyVisit_noNewLinks)

subsection \<open>Append mode leaves the existing files alone\<close>

lemma processFolder_append_keeps:
  assumes "Append config"
  shows "keeps (fst st) (fst (snd (processFolder e config ev folder st)))"
  using assms
    copyFilesAndTrack_append_keeps [of "fst st" e "Path folder" "TargetDir config"]
  by (simp add: processFolder_def Let_def keeps_refl split: option.splits)

lemma processFolders_append_keeps:
  assumes "Append config"
  shows "keeps (fst st) (fst (snd (processFolders e config ev folders st)))"
proof (induction folders arbitrary: st)
  case Nil
  show ?case by (simp add: keeps_refl)
next
  case (Cons f fs)
  let ?res = "processFolder e config ev f st"
  have k1: "keeps (fst st) (fst (snd ?res))"
    using assms by (rule processFolder_append_keeps)
  show ?case
  proof (cases "fst ?res = None")
    case True
    then have "processFolders e config ev (f # fs) st =
               processFolders e config ev fs (snd ?res)"
      by (simp add: Let_def)
    moreover have "keeps (fst st) (fst (snd (processFolders e config ev fs (snd ?res))))"
      using k1 Cons [of "snd ?res"] by (rule keeps_trans)
    ultimately show ?thesis by simp
  next
    case False
    with k1 show ?thesis by (auto simp: Let_def)
  qed
qed

lemma MigrateToGit_append_keeps:
  assumes "Append config"
  shows "keeps (disk w) (disk (snd (MigrateToGit e config folders w)))"
proof -
  let ?t = "snd (mkdirAll (disk w) (TargetDir config))"
  have k1: "keeps (disk w) ?t" by (rule mkdirAll_keeps)
  have "keeps (disk w) (fst (snd (processFolders e config ev folders (?t, r))))" for ev r
    using k1 processFolders_append_keeps [OF assms, of "(?t, r)" e ev folders]
    by (auto intro: keeps_trans)
  with k1 assms show ?thesis
    by (auto simp: MigrateToGit_def migrateIn_def Let_def keeps_refl
             split: option.splits sum.splits)
qed

text \<open>
  C6: in append mode \<^verbatim>\<open>MigrateToGit\<close>, whether it ends with an error or not, leaves
  every file and every symbolic link of the file system where it was and as it was
  (content, mode and time), and every directory a directory: nothing is deleted and
  nothing is overwritten, in the target directory or where a symbolic link leads out of
  it. This holds of what is at a path itself and of what \<^verbatim>\<open>os.Stat\<close> finds at the
  path, following the links on the way.
\<close>

theorem C6_append_keeps_existing:
  assumes "Append config"
  shows "(lookup (disk w) p = Some n \<longrightarrow>
            keptAs n (lookup (disk (snd (MigrateToGit e config folders w))) p)) \<and>
         (stat (disk w) p = Some n \<longrightarrow>
            keptAs n (stat (disk (snd (MigrateToGit e config folders w))) p))"
  using MigrateToGit_append_keeps [OF assms, of w e folders]
  by (auto simp: keeps_def intro: stat_keeps)

theorem C6_append_keeps_existing_witness:
  "Append (demo_cfg\<lparr>Append := True\<rparr>) \<and>
   srcLstat demo_env (Path v13) =
     Some (Dir True [(''README'', File ''R2'' 420 400), (''d.txt'', File ''D'' 420 400)]) \<and>
   lookup (disk seeded_world) [''work'', ''repo'', ''README''] = Some (File ''R'' 420 50) \<and>
   stat (disk seeded_world) [''work'', ''repo'', ''README''] = Some (File ''R'' 420 50) \<and>
   lookup (disk (snd (MigrateToGit demo_env (demo_cfg\<lparr>Append := True\<rparr>) [v13] seeded_world)))
     [''work'', ''repo''] =
     Some (Dir True [(''.git'', Dir True []), (''README'', File ''R'' 420 50),
                     (''d.txt'', File ''D'' 420 999)]) \<and>
   keptAs (File ''R'' 420 50)
     (lookup (disk (snd (MigrateToGit demo_env (demo_cfg\<lparr>Append := True\<rparr>) [v13]
                           seeded_world))) [''work'', ''repo'', ''README'']) \<and>
   keptAs (File ''R'' 420 50)
     (stat (disk (snd (MigrateToGit demo_env (demo_cfg\<lparr>Append := True\<rparr>) [v13]
                         seeded_world))) [''work'', ''repo'', ''README''])"
proof -
  have a: "Append (demo_cfg\<lparr>Append := True\<rparr>)" by simp
  have s: "srcLstat demo_env (Path v13) =
     Some (Dir True [(''README'', File ''R2'' 420 400), (''d.txt'', File ''D'' 420 400)])"
    by (simp add: demo_env_def demo_source_def v13_def)
  have b: "lookup (disk seeded_world) [''work'', ''repo'', ''README''] = Some (File ''R'' 420 50)"
    by code_simp
  have c: "stat (disk seeded_world) [''work'', ''repo'', ''README''] = Some (File ''R'' 420 50)"
    by code_simp
  have d: "lookup (disk (snd (MigrateToGit demo_env (demo_cfg\<lparr>Append := True\<rparr>) [v13]
                                seeded_world))) [''work'', ''repo''] =
     Some (Dir True [(''.git'', Dir True []), (''README'', File ''R'' 420 50),
                     (''d.txt'', File ''D'' 420 999)])"
    by code_simp
  show ?thesis
    using C6_append_keeps_existing [OF a, where w = seeded_world and e = demo_env
        and folders = "[v13]" and p = "[''work'', ''repo'', ''README'']"
        and n = "File ''R'' 420 50"] a s b c d
    by simp
qed

subsection \<open>Append mode without a repository\<close>

text \<open>What \<^verbatim>\<open>os.Stat\<close> finds at an entry of a directory that a path leads to.\<close>

lemma stat_child:
  assumes "resolve t p = Found q" and "lookup t q = Some (Dir r es)"
  shows "map_of es c = None \<Longrightarrow> stat t (p @ [c]) = None"
    and "map_of es c = Some (Dir r' es') \<Longrightarrow>
           resolve t (p @ [c]) = Found (q @ [c]) \<and> stat t (p @ [c]) = Some (Dir r' es')"
proof -
  from assms resolveAt_append [of maxLinks t "[]" "map Name p" q]
  obtain k where k: "\<And>b. resolveAt maxLinks t [] (map Name p @ b) = resolveAt k t q b"
    by (auto simp: resolve_def)
  have r: "resolve t (p @ [c]) = resolveAt k t q [Name c]"
    using k [of "[Name c]"] by (simp add: resolve_def)
  have l: "lookup t (q @ [c]) = map_of es c"
    using assms(2) by (simp add: lookup_append split: option.splits)
  show "stat t (p @ [c]) = None" if "map_of es c = None"
    using that r l by (simp add: stat_def)
  show "resolve t (p @ [c]) = Found (q @ [c]) \<and> stat t (p @ [c]) = Some (Dir r' es')"
    if "map_of es c = Some (Dir r' es')"
    using that r l by (simp add: stat_def)
qed

lemma lstat_Dir_stat:
  assumes "lstat t p = Some (Dir r es)"
  shows "stat t p = Some (Dir r es)"
proof (cases "p = []")
  case True
  with assms show ?thesis by (simp add: lstat_def stat_def resolve_def)
next
  case False
  with assms obtain q r' es' where q: "resolve t (butlast p) = Found q"
    and d: "lookup t q = Some (Dir r' es')" and c: "map_of es' (last p) = Some (Dir r es)"
    by (auto simp: lstat_def split: resolved.splits option.splits node.splits)
  from stat_child(2) [OF q d c] False show ?thesis by simp
qed

text \<open>
  A name that \<^verbatim>\<open>os.Stat\<close> does not find in a directory, or in a directory that is
  not there, is not found after \<^verbatim>\<open>os.MkdirAll\<close> of that directory either.
\<close>

lemma mkdirAll_child:
  "fst (mkdirAll t p) = None \<Longrightarrow> stat t (p @ [c]) = None \<Longrightarrow>
   stat (snd (mkdirAll t p)) (p @ [c]) = None"
proof (induction t p arbitrary: c rule: mkdirAll.induct)
  case (1 fs p)
  show ?case
  proof (cases "stat fs p")
    case (Some n)
    with "1.prems"(2) show ?thesis by (subst mkdirAll.simps) simp
  next
    case None
    let ?up = "if butlast p = [] then (None, fs) else mkdirAll fs (butlast p)"
    let ?t1 = "snd ?up"
    have eq: "mkdirAll fs p =
                (if fst ?up \<noteq> None then ?up
                 else (case mkdir ?t1 p of
                         Inr fs' \<Rightarrow> (None, fs')
                       | Inl x \<Rightarrow> (case lstat ?t1 p of
                                    Some (Dir r es) \<Rightarrow> (None, ?t1)
                                  | _ \<Rightarrow> (Some x, ?t1))))"
      by (subst mkdirAll.simps) (simp add: None Let_def)
    from None have ne: "p \<noteq> []" by (auto simp: stat_def resolve_def)
    from eq "1.prems"(1) have up: "fst ?up = None" by (auto split: if_splits)
    have A: "stat ?t1 p = None"
    proof (cases "butlast p = []")
      case True
      with None show ?thesis by simp
    next
      case False
      from up False have "fst (mkdirAll fs (butlast p)) = None" by simp
      moreover from None ne have "stat fs (butlast p @ [last p]) = None" by simp
      ultimately have "stat (snd (mkdirAll fs (butlast p))) (butlast p @ [last p]) = None"
        using "1.IH" [OF None False] by blast
      with False ne show ?thesis by simp
    qed
    show ?thesis
    proof (cases "mkdir ?t1 p")
      case (Inl x)
      with eq up "1.prems"(1) obtain r es where "lstat ?t1 p = Some (Dir r es)"
        by (auto split: option.splits node.splits)
      from lstat_Dir_stat [OF this] A show ?thesis by simp
    next
      case (Inr t2)
      from mkdir_Inr [OF Inr] obtain q r es where q: "resolve ?t1 (butlast p) = Found q"
        and d: "lookup ?t1 q = Some (Dir r es)"
        and t2: "t2 = putAt ?t1 (q @ [last p]) (Dir True [])"
        by blast
      from Inr have k: "keeps ?t1 t2" by (rule mkdir_keeps)
      from q k have q2: "resolve t2 (butlast p) = Found q"
        by (simp add: resolve_def resolveAt_keeps)
      from keeps_dir [OF k d] obtain r2 es2 where d2: "lookup t2 q = Some (Dir r2 es2)"
        by blast
      from d have "lookup t2 (q @ [last p]) = Some (Dir True [])"
        unfolding t2 by (intro putAt_at) simp
      with d2 have c2: "map_of es2 (last p) = Some (Dir True [])"
        by (simp add: lookup_append split: option.splits)
      from stat_child(2) [OF q2 d2 c2] ne
      have "resolve t2 p = Found (q @ [last p])"
        and "lookup t2 (q @ [last p]) = Some (Dir True [])"
        using \<open>lookup t2 (q @ [last p]) = Some (Dir True [])\<close> by simp_all
      from stat_child(1) [OF this, of c] have "stat t2 (p @ [c]) = None" by simp
      with eq up Inr show ?thesis by simp
    qed
  qed
qed

lemma mkdirAll_there: "stat t p \<noteq> None \<Longrightarrow> snd (mkdirAll t p) = t"
  by (subst mkdirAll.simps) auto

text \<open>
  C10: with \<open>Append\<close> set, \<open>DryRun\<close> not set and nothing that \<^verbatim>\<open>os.Stat\<close> finds at
  \<^verbatim>\<open>.git\<close> under the target directory, \<^verbatim>\<open>MigrateToGit\<close> returns an error, and the world
  it leaves differs from the one it found only by what \<^verbatim>\<open>os.MkdirAll\<close> of the target
  directory has made: the repository is as before, whatever was in the file system is
  kept, no file and no link is added, and nothing at all is changed when something was
  at the path of the target directory already.
\<close>

theorem C10_append_without_repository:
  assumes "Append config" and "\<not> DryRun config"
    and "stat (disk w) (TargetDir config @ [''.git'']) = None"
  shows "fst (MigrateToGit e config folders w) \<noteq> None \<and>
         snd (MigrateToGit e config folders w) =
           w\<lparr> disk := snd (mkdirAll (disk w) (TargetDir config)) \<rparr> \<and>
         keeps (disk w) (disk (snd (MigrateToGit e config folders w))) \<and>
         onlyNew {} (disk w) (disk (snd (MigrateToGit e config folders w))) \<and>
         (stat (disk w) (TargetDir config) \<noteq> None \<longrightarrow>
            snd (MigrateToGit e config folders w) = w)"
proof -
  let ?made = "mkdirAll (disk w) (TargetDir config)"
  have g: "stat (snd ?made) (TargetDir config @ [''.git'']) = None" if "fst ?made = None"
    using that assms(3) by (rule mkdirAll_child)
  have r: "fst (MigrateToGit e config folders w) \<noteq> None \<and>
           snd (MigrateToGit e config folders w) = w\<lparr> disk := snd ?made \<rparr>"
  proof (cases "fst ?made")
    case None
    with g assms(1,2) show ?thesis by (simp add: MigrateToGit_def Let_def)
  next
    case (Some x)
    with assms(1,2) show ?thesis by (simp add: MigrateToGit_def Let_def)
  qed
  moreover have "keeps (disk w) (snd ?made)" by (rule mkdirAll_keeps)
  moreover have "onlyNew {} (disk w) (snd ?made)" by (rule mkdirAll_onlyNew)
  moreover have "w\<lparr> disk := snd ?made \<rparr> = w" if "stat (disk w) (TargetDir config) \<noteq> None"
    using mkdirAll_there [OF that] by simp
  ultimately show ?thesis by simp
qed

theorem C10_append_without_repository_witness:
  "Append (demo_cfg\<lparr>Append := True\<rparr>) \<and> \<not> DryRun (demo_cfg\<lparr>Append := True\<rparr>) \<and>
   stat (disk fresh_world) (TargetDir (demo_cfg\<lparr>Append := True\<rparr>) @ [''.git'']) = None \<and>
   fst (MigrateToGit demo_env (demo_cfg\<lparr>Append := True\<rparr>) [v10, v12] fresh_world)
     = Some ErrRepositoryNotFound \<and>
   snd (MigrateToGit demo_env (demo_cfg\<lparr>Append := True\<rparr>) [v10, v12] fresh_world)
     = \<lparr> disk = Dir True [(''home'', Dir True [(''u'', Dir True [])]),
                          (''work'', Dir True [(''repo'', Dir True [])])],
         repo = None \<rparr> \<and>
   stat (rootWith (Dir True [(''a.txt'', File ''A'' 420 100)]))
     (TargetDir (demo_cfg\<lparr>Append := True\<rparr>)) \<noteq> None \<and>
   stat (rootWith (Dir True [(''a.txt'', File ''A'' 420 100)]))
     (TargetDir (demo_cfg\<lparr>Append := True\<rparr>) @ [''.git'']) = None \<and>
   snd (MigrateToGit demo_env (demo_cfg\<lparr>Append := True\<rparr>) [v10, v12]
          \<lparr> disk = rootWith (Dir True [(''a.txt'', File ''A'' 420 100)]), repo = None \<rparr>)
     = \<lparr> disk = rootWith (Dir True [(''a.txt'', File ''A'' 420 100)]), repo = None \<rparr>"
proof -
  let ?w = "\<lparr> disk = rootWith (Dir True [(''a.txt'', File ''A'' 420 100)]), repo = None \<rparr>"
  have c2: "stat (disk ?w) (TargetDir (demo_cfg\<lparr>Append := True\<rparr>) @ [''.git'']) = None"
    by code_simp
  have t2: "stat (disk ?w) (TargetDir (demo_cfg\<lparr>Append := True\<rparr>)) \<noteq> None"
    by code_simp
  have a: "Append (demo_cfg\<lparr>Append := True\<rparr>)" by simp
  have b: "\<not> DryRun (demo_cfg\<lparr>Append := True\<rparr>)" by (simp add: demo_cfg_def)
  have c: "stat (disk fresh_world) (TargetDir (demo_cfg\<lparr>Append := True\<rparr>) @ [''.git'']) = None"
    by code_simp
  have d: "fst (MigrateToGit demo_env (demo_cfg\<lparr>Append := True\<rparr>) [v10, v12] fresh_world)
     = Some ErrRepositoryNotFound"
    by code_simp
  have m: "snd (mkdirAll (disk fresh_world) (TargetDir (demo_cfg\<lparr>Append := True\<rparr>))) =
           Dir True [(''home'', Dir True [(''u'', Dir True [])]),
                     (''work'', Dir True [(''repo'', Dir True [])])]"
    by code_simp
  have r2: "snd (MigrateToGit demo_env (demo_cfg\<lparr>Append := True\<rparr>) [v10, v12] ?w) = ?w"
    using C10_append_without_repository [OF a b c2, of demo_env "[v10, v12]"] t2 by blast
  from c2 t2 have "stat (rootWith (Dir True [(''a.txt'', File ''A'' 420 100)]))
                     (TargetDir (demo_cfg\<lparr>Append := True\<rparr>) @ [''.git'']) = None"
    and "stat (rootWith (Dir True [(''a.txt'', File ''A'' 420 100)]))
           (TargetDir (demo_cfg\<lparr>Append := True\<rparr>)) \<noteq> None"
    by simp_all
  moreover have "snd (MigrateToGit demo_env (demo_cfg\<lparr>Append := True\<rparr>) [v10, v12] fresh_world)
     = \<lparr> disk = Dir True [(''home'', Dir True [(''u'', Dir True [])]),
                          (''work'', Dir True [(''repo'', Dir True [])])],
         repo = None \<rparr>"
    using C10_append_without_repository [OF a b c, of demo_env "[v10, v12]"] m
    by (simp add: fresh_world_def)
  ultimately show ?thesis
    using a b c d r2 by blast
qed

subsection \<open>The existing-version index\<close>

text \<open>
  C4: the index holds the version of every commit in the history. On a branch of two
  commits the scan reads the commit the branch points to and not its parent: version 1.0
  is in the history and not in the index.
\<close>

theorem C4_index_misses_history:
  "historyVersions two_commit_repo = [''1.2'', ''1.0''] \<and>
   existingVersionsOf two_commit_repo ''1.2'' = Some True \<and>
   existingVersionsOf two_commit_repo ''1.0'' = None"
  by code_simp

text \<open>
  C1: a second run, in append mode, on the folders and the target of a first run in
  append mode creates no commit. The repository holds one commit, for version 1.0, and
  the working tree a \<^verbatim>\<open>README\<close>. The first run skips version 1.0, which the index
  holds, and commits version 1.2. The index of the second run holds version 1.2 only, the
  file of version 1.0 is not in the working tree, and the second run commits version 1.0.
  Each of the two commits adds a file to the tree of its parent, so the outcome is the
  same with a Git library that refuses empty commits and with one that does not.
\<close>

theorem C1_second_run_commits_again:
  "fst (MigrateToGit demo_env (demo_cfg\<lparr>Append := True\<rparr>) [v10, v12] legacy_world) = None \<and>
   messagesOf (snd (MigrateToGit demo_env (demo_cfg\<lparr>Append := True\<rparr>) [v10, v12]
                      legacy_world)) =
     [''Version 1.0: imported'', ''Version 1.2: v1.2 (created: T200)''] \<and>
   fst (MigrateToGit demo_env (demo_cfg\<lparr>Append := True\<rparr>) [v10, v12]
          (snd (MigrateToGit demo_env (demo_cfg\<lparr>Append := True\<rparr>) [v10, v12]
                  legacy_world))) = None \<and>
   messagesOf (snd (MigrateToGit demo_env (demo_cfg\<lparr>Append := True\<rparr>) [v10, v12]
                      (snd (MigrateToGit demo_env (demo_cfg\<lparr>Append := True\<rparr>) [v10, v12]
                              legacy_world)))) =
     [''Version 1.0: imported'', ''Version 1.2: v1.2 (created: T200)'',
      ''Version 1.0: v1.0 (created: T100)''] \<and>
   messagesOf (snd (MigrateToGit (demo_env\<lparr>emptyCommitRefused := False\<rparr>)
                      (demo_cfg\<lparr>Append := True\<rparr>) [v10, v12]
                      (snd (MigrateToGit (demo_env\<lparr>emptyCommitRefused := False\<rparr>)
                              (demo_cfg\<lparr>Append := True\<rparr>) [v10, v12] legacy_world)))) =
     [''Version 1.0: imported'', ''Version 1.2: v1.2 (created: T200)'',
      ''Version 1.0: v1.0 (created: T100)'']"
  by code_simp

text \<open>
  When the first run is not in append mode, the second run finds the file of version 1.0
  gone from the working tree and still in the index, since the first run never staged
  its removal: it copies the file and adds it again, and the commit changes nothing. A
  library that refuses empty commits ends the run with an error; another one commits
  version 1.0 a second time.
\<close>

lemma append_after_plain_run:
  "fst (MigrateToGit demo_env (demo_cfg\<lparr>Append := True\<rparr>) [v10, v12]
          (snd (MigrateToGit demo_env demo_cfg [v10, v12] fresh_world))) = Some ErrCommit \<and>
   messagesOf (snd (MigrateToGit (demo_env\<lparr>emptyCommitRefused := False\<rparr>)
                      (demo_cfg\<lparr>Append := True\<rparr>) [v10, v12]
                      (snd (MigrateToGit (demo_env\<lparr>emptyCommitRefused := False\<rparr>)
                              demo_cfg [v10, v12] fresh_world)))) =
     [''Version 1.0: v1.0 (created: T100)'', ''Version 1.2: v1.2 (created: T200)'',
      ''Version 1.0: v1.0 (created: T100)'']"
  by code_simp





subsection \<open>Author of a commit\<close>

lemma findAuthor_find:
  "findAuthor version ls =
     (case find (mapsVersion version)
             (filter (\<lambda>l. \<not> (l = [] \<or> HasPrefix l ''#'')) (map TrimSpace ls)) of
        None \<Rightarrow> ([], [])
      | Some l \<Rightarrow> (Split l CHR '':'' ! 1, Split l CHR '':'' ! 2))"
  by (induction ls) (simp_all add: Let_def mapsVersion_def)

lemma resolveAuthor_spec: "resolveAuthor e config version = specAuthor e config version"
  by (simp add: resolveAuthor_def specAuthor_def getAuthorInfo_def findAuthor_find
      mappingLines_def split: option.splits)

lemma objects_Add: "objects (foldl (Add t dir) r ps) = objects r"
  by (induction ps arbitrary: r) (simp_all add: Add_def split: option.splits node.splits)

lemma authorsOf_Commit:
  "objects (snd (Commit e r msg name email t)) \<noteq> objects r \<Longrightarrow>
   authorsOf (drop (length (objects r)) (objects (snd (Commit e r msg name email t)))) =
     [(name, email)]"
  by (auto simp: Commit_def Let_def authorsOf_def
           split: option.splits reference.splits if_splits)

lemma authorsOf_Commit_Add:
  "objects (snd (Commit e (foldl (Add t dir) r ps) msg (fst a) (snd a) w)) \<noteq> objects r \<Longrightarrow>
   authorsOf (drop (length (objects r))
                   (objects (snd (Commit e (foldl (Add t dir) r ps) msg (fst a) (snd a) w)))) =
     [a]"
  using authorsOf_Commit [of e "foldl (Add t dir) r ps" msg "fst a" "snd a" w]
  by (simp add: objects_Add)

text \<open>
  C8 (as stated): the author of a commit is the pair of the first line of the authors
  file that maps the folder's version. Where that line has an empty field, here the
  e-mail address, the commit is made under the default author instead.
\<close>

theorem C8_empty_field_counterexample:
  "readFile demo_env ''partial.txt'' = Some ''1.0:Alice:'' \<and>
   Split ''1.0:Alice:'' CHR '':'' = [''1.0'', ''Alice'', ''''] \<and>
   worldAuthors (snd (MigrateToGit demo_env (demo_cfg\<lparr>AuthorsFile := ''partial.txt''\<rparr>)
                        [v10] fresh_world)) = [(''Developer'', ''dev@example.com'')]"
  by code_simp

text \<open>
  C8 (amended): when the loop body creates a commit for a folder, the author of that
  commit is the name and e-mail address of the first line of the authors file that maps
  the folder's version, provided both are non-empty; it is \<open>Author\<close> and \<open>Email\<close> of the
  configuration when one of them is empty, when no authors file is configured, when the
  file cannot be read and when no line maps the version.
\<close>

theorem C8_commit_author:
  assumes "objects (snd (snd (processFolder e config ev folder st))) \<noteq> objects (snd st)"
  shows "authorsOf (drop (length (objects (snd st)))
                         (objects (snd (snd (processFolder e config ev folder st))))) =
         [specAuthor e config (Version folder)]"
proof -
  let ?a = "resolveAuthor e config (Version folder)"
  have "authorsOf (drop (length (objects (snd st)))
                         (objects (snd (snd (processFolder e config ev folder st))))) = [?a]"
    using assms
    by (auto simp: processFolder_def Let_def authorsOf_Commit_Add
             split: if_splits sum.splits option.splits)
  then show ?thesis by (simp add: resolveAuthor_spec)
qed

theorem C8_commit_author_witness:
  "objects (snd (snd (processFolder demo_env (demo_cfg\<lparr>AuthorsFile := ''authors.txt''\<rparr>)
                        Map.empty v10 (rootWith (Dir True []), emptyRepository))))
     \<noteq> objects (snd (rootWith (Dir True []), emptyRepository)) \<and>
   authorsOf (drop (length (objects (snd (rootWith (Dir True []), emptyRepository))))
       (objects (snd (snd (processFolder demo_env (demo_cfg\<lparr>AuthorsFile := ''authors.txt''\<rparr>)
                        Map.empty v10 (rootWith (Dir True []), emptyRepository))))))
     = [(''Alice'', ''alice@x.com'')]"
proof -
  have a: "objects (snd (snd (processFolder demo_env (demo_cfg\<lparr>AuthorsFile := ''authors.txt''\<rparr>)
                        Map.empty v10 (rootWith (Dir True []), emptyRepository))))
     \<noteq> objects (snd (rootWith (Dir True []), emptyRepository))"
    by code_simp
  have b: "specAuthor demo_env (demo_cfg\<lparr>AuthorsFile := ''authors.txt''\<rparr>) (Version v10)
             = (''Alice'', ''alice@x.com'')"
    by code_simp
  show ?thesis
    using C8_commit_author [OF a] a b by simp
qed

subsection \<open>Clearing the target directory\<close>

















subsection \<open>The filtered copy\<close>














lemma untouched_mono: "untouched P t t' \<Longrightarrow> (\<And>p. Q p \<Longrightarrow> P p) \<Longrightarrow> untouched Q t t'"
  unfolding untouched_def by blast













text \<open>
  A symbolic link that the clearing spares is followed by the copy: where the folder
  has a file at the path of a link of the working tree, the file is written to what
  the link names. Here the clearing removes \<^verbatim>\<open>old.txt\<close> and spares the link to it, and
  the copy of the folder's file \<^verbatim>\<open>link\<close> makes \<^verbatim>\<open>old.txt\<close> again, with the content
  of that file.
\<close>

lemma copy_follows_spared_link:
  "filteredFiles (srcLstat demo_env (Path v20)) = [[''link'']] \<and>
   fst (processFolder demo_env demo_cfg Map.empty v20 (rootWith linked_tree, emptyRepository))
     = None \<and>
   lookup (fst (snd (processFolder demo_env demo_cfg Map.empty v20
                       (rootWith linked_tree, emptyRepository))))
          [''work'', ''repo''] =
     Some (Dir True [(''.git'', Dir True []), (''link'', Symlink 41 False [Name ''old.txt'']),
                     (''old.txt'', File ''L'' 420 999)])"
  by code_simp



end
